theory Spec2Isabelle
  imports Complex_Main
begin

section \<open>The node-daemon reconciler of the local-storage operator\<close>

text \<open>
  A shallow embedding of \<^verbatim>\<open>pkg/controller/nodedaemon/reconcile.go\<close>. The file holds two
  methods of \<^verbatim>\<open>DaemonReconciler\<close>: \<^verbatim>\<open>Reconcile\<close> and \<^verbatim>\<open>cleanupOldDaemonsets\<close>. Both talk to
  the cluster through \<^verbatim>\<open>r.client\<close>. The cluster is outside the program and changes on its
  own (pods terminate asynchronously), so the client is modelled as a record of
  operations over a cluster state \<open>'w\<close> of any type: each operation returns its answer
  and the next cluster state. Every answer the reconciler receives is appended to a
  history of events, so that a statement such as "nothing was listed or deleted" is a
  statement about that history. Logging through \<^verbatim>\<open>r.reqLogger\<close> has no effect on
  control flow and is left out.
\<close>

subsection \<open>Constants (lines 25-36)\<close>

definition oldProvisionerName :: string where
  "oldProvisionerName = ''localvolumeset-local-provisioner''"

definition oldLVDiskMakerPrefix :: string where
  "oldLVDiskMakerPrefix = ''local-volume-diskmaker-''"

definition oldLVProvisionerPrefix :: string where
  "oldLVProvisionerPrefix = ''local-volume-provisioner-''"

definition appLabelKey :: string where
  "appLabelKey = ''app''"

definition ProvisionerName :: string where
  "ProvisionerName = ''local-provisioner''"

definition DiskMakerName :: string where
  "DiskMakerName = ''diskmaker-manager''"

definition dataHashAnnotationKey :: string where
  "dataHashAnnotationKey = ''local.storage.openshift.io/configMapDataHash''"

subsection \<open>Errors\<close>

text \<open>
  Go's \<^verbatim>\<open>error\<close> is \<open>error option\<close>, with \<open>None\<close> for \<^verbatim>\<open>nil\<close>. An API status error
  carries its reason; \<^verbatim>\<open>errors.IsNotFound\<close> and \<^verbatim>\<open>errors.IsGone\<close> test the reason and are
  false on \<^verbatim>\<open>nil\<close>.
\<close>

datatype StatusReason =
    StatusReasonNotFound
  | StatusReasonGone
  | StatusReasonConflict
  | StatusReasonForbidden
  | StatusReasonInternalError
  | StatusReasonTimeout

datatype error =
    StatusError StatusReason
  | ErrWaitTimeout
  | RequirementError string
  | OtherError string

fun IsNotFound :: "error option \<Rightarrow> bool" where
  "IsNotFound (Some (StatusError StatusReasonNotFound)) = True"
| "IsNotFound _ = False"

fun IsGone :: "error option \<Rightarrow> bool" where
  "IsGone (Some (StatusError StatusReasonGone)) = True"
| "IsGone _ = False"

subsection \<open>Cluster objects\<close>

text \<open>
  The Kubernetes object types are reduced to the metadata this controller reads or
  writes. Tolerations, owner references and node selectors are opaque payloads.
\<close>

datatype Toleration = Toleration string
datatype OwnerReference = OwnerReference string
datatype NodeSelector = NodeSelector string

record DaemonSet =
  Name :: string
  Namespace :: string
  Labels :: "string \<rightharpoonup> string"
  Annotations :: "string \<rightharpoonup> string"
  OwnerReferences :: "OwnerReference list"
  Tolerations :: "Toleration list"
  NodeSelectorOf :: "NodeSelector option"

record Pod =
  PodName :: string
  PodNamespace :: string
  PodLabels :: "string \<rightharpoonup> string"

record ConfigMap =
  ConfigMapName :: string
  ConfigMapNamespace :: string
  Data :: "string \<rightharpoonup> string"

datatype LocalVolumeSet = LocalVolumeSet string
datatype LocalVolume = LocalVolume string

record Request =
  RequestNamespace :: string
  RequestName :: string

datatype OperationResult =
    OperationResultNone
  | OperationResultCreated
  | OperationResultUpdated

text \<open>The zero value \<^verbatim>\<open>&appsv1.DaemonSet{}\<close>.\<close>

definition emptyDaemonSet :: DaemonSet where
  "emptyDaemonSet = \<lparr>Name = [], Namespace = [], Labels = Map.empty, Annotations = Map.empty,
     OwnerReferences = [], Tolerations = [], NodeSelectorOf = None\<rparr>"

subsection \<open>Label selectors (\<^verbatim>\<open>k8s.io/apimachinery/pkg/labels\<close>)\<close>

text \<open>
  The library is not part of this repository. \<^verbatim>\<open>labels.NewRequirement\<close> validates the key,
  refuses an empty value list for the operator \<^verbatim>\<open>in\<close>, and validates every value as a
  label value: at most 63 bytes, empty or alphanumeric at both ends with \<^verbatim>\<open>-\<close>, \<^verbatim>\<open>_\<close>, \<^verbatim>\<open>.\<close>
  allowed between. Only keys without a DNS prefix are accepted here; the one key this
  file uses is \<open>appLabelKey\<close>. Where the library returns no requirement beside its error,
  the model returns one that is never looked at. A requirement with operator \<^verbatim>\<open>in\<close>
  matches a label set that has the key with one of the values.
\<close>

datatype Operator = In | NotIn

record Requirement =
  key :: string
  operator :: Operator
  strValues :: "string list"

type_synonym Selector = "Requirement list"

definition isAlnum :: "char \<Rightarrow> bool" where
  "isAlnum ch = (let n = of_char ch :: nat in
     (48 \<le> n \<and> n \<le> 57) \<or> (65 \<le> n \<and> n \<le> 90) \<or> (97 \<le> n \<and> n \<le> 122))"

definition isNameChar :: "char \<Rightarrow> bool" where
  "isNameChar ch = (isAlnum ch \<or> ch = CHR ''-'' \<or> ch = CHR ''_'' \<or> ch = CHR ''.'')"

definition validLabelValue :: "string \<Rightarrow> bool" where
  "validLabelValue v =
     (length v \<le> 63 \<and> (v = [] \<or> (isAlnum (hd v) \<and> isAlnum (last v) \<and> list_all isNameChar v)))"

definition validLabelKey :: "string \<Rightarrow> bool" where
  "validLabelKey k =
     (k \<noteq> [] \<and> length k \<le> 63 \<and> isAlnum (hd k) \<and> isAlnum (last k) \<and> list_all isNameChar k)"

definition NewRequirement :: "string \<Rightarrow> Operator \<Rightarrow> string list \<Rightarrow> error option \<times> Requirement" where
  "NewRequirement k op vals =
     (let requirement = \<lparr>key = k, operator = op, strValues = vals\<rparr> in
      if \<not> validLabelKey k then (Some (RequirementError k), requirement)
      else if vals = [] then (Some (RequirementError []), requirement)
      else (case find (\<lambda>v. \<not> validLabelValue v) vals of
              Some v \<Rightarrow> (Some (RequirementError v), requirement)
            | None \<Rightarrow> (None, requirement)))"

definition NewSelector :: Selector where
  "NewSelector = []"

definition Add :: "Selector \<Rightarrow> Requirement \<Rightarrow> Selector" where
  "Add selector requirement = selector @ [requirement]"

definition RequirementMatches :: "Requirement \<Rightarrow> (string \<rightharpoonup> string) \<Rightarrow> bool" where
  "RequirementMatches req ls =
     (case operator req of
        In \<Rightarrow> (case ls (key req) of None \<Rightarrow> False | Some v \<Rightarrow> v \<in> set (strValues req))
      | NotIn \<Rightarrow> (case ls (key req) of None \<Rightarrow> True | Some v \<Rightarrow> v \<notin> set (strValues req)))"

definition Matches :: "Selector \<Rightarrow> (string \<rightharpoonup> string) \<Rightarrow> bool" where
  "Matches selector ls = list_all (\<lambda>req. RequirementMatches req ls) selector"

subsection \<open>The client and the reconciler (lines 43-51)\<close>

text \<open>
  An event is one call through the client, with the answer that came back.
\<close>

datatype event =
    ListedDaemonSets string "error option" "DaemonSet list"
  | GotDaemonSet string string "error option" DaemonSet
  | DeletedDaemonSet DaemonSet "error option"
  | CreatedDaemonSet DaemonSet "error option"
  | UpdatedDaemonSet DaemonSet "error option"
  | ListedPods Selector "error option" "Pod list"

record 'w Client =
  List_DaemonSets :: "string \<Rightarrow> 'w \<Rightarrow> (error option \<times> DaemonSet list) \<times> 'w"
  Get_DaemonSet :: "string \<Rightarrow> string \<Rightarrow> 'w \<Rightarrow> (error option \<times> DaemonSet) \<times> 'w"
  Delete_DaemonSet :: "DaemonSet \<Rightarrow> 'w \<Rightarrow> error option \<times> 'w"
  Create_DaemonSet :: "DaemonSet \<Rightarrow> 'w \<Rightarrow> error option \<times> 'w"
  Update_DaemonSet :: "DaemonSet \<Rightarrow> 'w \<Rightarrow> error option \<times> 'w"
  List_Pods :: "Selector \<Rightarrow> 'w \<Rightarrow> (error option \<times> Pod list) \<times> 'w"

record 'w DaemonReconciler =
  client :: "'w Client"
  cluster :: 'w
  history :: "event list"
  deletedStaticProvisioner :: bool

text \<open>The calls through \<^verbatim>\<open>r.client\<close>, each recorded in the history.\<close>

definition clientListDaemonSets ::
  "string \<Rightarrow> 'w DaemonReconciler \<Rightarrow> (error option \<times> DaemonSet list) \<times> 'w DaemonReconciler" where
  "clientListDaemonSets namespace r =
     (case List_DaemonSets (client r) namespace (cluster r) of
        ((err, items), w) \<Rightarrow>
          ((err, items),
           r\<lparr>cluster := w, history := history r @ [ListedDaemonSets namespace err items]\<rparr>))"

definition clientGetDaemonSet ::
  "string \<Rightarrow> string \<Rightarrow> 'w DaemonReconciler \<Rightarrow> (error option \<times> DaemonSet) \<times> 'w DaemonReconciler" where
  "clientGetDaemonSet namespace name r =
     (case Get_DaemonSet (client r) namespace name (cluster r) of
        ((err, ds), w) \<Rightarrow>
          ((err, ds),
           r\<lparr>cluster := w, history := history r @ [GotDaemonSet namespace name err ds]\<rparr>))"

definition clientDelete ::
  "DaemonSet \<Rightarrow> 'w DaemonReconciler \<Rightarrow> error option \<times> 'w DaemonReconciler" where
  "clientDelete ds r =
     (case Delete_DaemonSet (client r) ds (cluster r) of
        (err, w) \<Rightarrow> (err, r\<lparr>cluster := w, history := history r @ [DeletedDaemonSet ds err]\<rparr>))"

definition clientCreate ::
  "DaemonSet \<Rightarrow> 'w DaemonReconciler \<Rightarrow> error option \<times> 'w DaemonReconciler" where
  "clientCreate ds r =
     (case Create_DaemonSet (client r) ds (cluster r) of
        (err, w) \<Rightarrow> (err, r\<lparr>cluster := w, history := history r @ [CreatedDaemonSet ds err]\<rparr>))"

definition clientUpdate ::
  "DaemonSet \<Rightarrow> 'w DaemonReconciler \<Rightarrow> error option \<times> 'w DaemonReconciler" where
  "clientUpdate ds r =
     (case Update_DaemonSet (client r) ds (cluster r) of
        (err, w) \<Rightarrow> (err, r\<lparr>cluster := w, history := history r @ [UpdatedDaemonSet ds err]\<rparr>))"

definition clientListPods ::
  "Selector \<Rightarrow> 'w DaemonReconciler \<Rightarrow> (error option \<times> Pod list) \<times> 'w DaemonReconciler" where
  "clientListPods selector r =
     (case List_Pods (client r) selector (cluster r) of
        ((err, items), w) \<Rightarrow>
          ((err, items),
           r\<lparr>cluster := w, history := history r @ [ListedPods selector err items]\<rparr>))"

subsection \<open>Exponential backoff (\<^verbatim>\<open>k8s.io/apimachinery/pkg/util/wait\<close>)\<close>

text \<open>
  The library is not part of this repository. \<^verbatim>\<open>Backoff.Step\<close> decrements \<^verbatim>\<open>Steps\<close>,
  multiplies \<^verbatim>\<open>Duration\<close> by \<^verbatim>\<open>Factor\<close>, and on passing \<^verbatim>\<open>Cap\<close> sets the duration to the cap
  and \<^verbatim>\<open>Steps\<close> to zero. \<^verbatim>\<open>ExponentialBackoff\<close> calls the condition while steps remain,
  returns its error or \<^verbatim>\<open>nil\<close> once it reports done, and \<^verbatim>\<open>ErrWaitTimeout\<close> otherwise.
  Durations are nanoseconds. The sleep between two attempts, with its random jitter, has
  no effect on the values computed and is not modelled; the product of duration and
  factor is taken exactly where the library rounds to a float.
\<close>

definition Second :: int where
  "Second = 1000000000"

definition Minute :: int where
  "Minute = 60 * Second"

record Backoff =
  Duration :: int
  Factor :: rat
  Jitter :: rat
  Steps :: int
  Cap :: int

definition truncateDuration :: "rat \<Rightarrow> int" where
  "truncateDuration x = (if 0 \<le> x then \<lfloor>x\<rfloor> else \<lceil>x\<rceil>)"

definition Step :: "Backoff \<Rightarrow> Backoff" where
  "Step b =
     (if Steps b < 1 then b
      else
        let b1 = b\<lparr>Steps := Steps b - 1\<rparr> in
        if Factor b1 \<noteq> 0 then
          let b2 = b1\<lparr>Duration := truncateDuration (of_int (Duration b1) * Factor b1)\<rparr> in
          if Cap b2 > 0 \<and> Duration b2 > Cap b2 then b2\<lparr>Duration := Cap b2, Steps := 0\<rparr> else b2
        else b1)"

function ExponentialBackoff ::
  "Backoff \<Rightarrow> ('st \<Rightarrow> (bool \<times> error option) \<times> 'st) \<Rightarrow> 'st \<Rightarrow> error option \<times> 'st" where
  "ExponentialBackoff backoff condition st =
     (if Steps backoff > 0 then
        (case condition st of
           ((ok, err), st') \<Rightarrow>
             if err \<noteq> None \<or> ok then (err, st')
             else if Steps backoff = 1 then (Some ErrWaitTimeout, st')
             else ExponentialBackoff (Step backoff) condition st')
      else (Some ErrWaitTimeout, st))"
  by pat_completeness auto
termination
  by (relation "measure (\<lambda>(b, _, _). nat (Steps b))") (auto simp: Step_def Let_def)

declare ExponentialBackoff.simps [simp del]

subsection \<open>\<^verbatim>\<open>cleanupOldDaemonsets\<close> (lines 96-173)\<close>

definition HasPrefix :: "string \<Rightarrow> string \<Rightarrow> bool" where
  "HasPrefix s pfx = (length pfx \<le> length s \<and> take (length pfx) s = pfx)"

text \<open>
  The loop of lines 109-123 over \<^verbatim>\<open>dsList.Items\<close>. It carries \<^verbatim>\<open>appNameList\<close> and stops at
  the first delete error that is neither not-found nor gone.
\<close>

fun deleteOldDaemons ::
  "DaemonSet list \<Rightarrow> string list \<Rightarrow> 'w DaemonReconciler \<Rightarrow>
     (error option \<times> string list) \<times> 'w DaemonReconciler" where
  "deleteOldDaemons [] appNameList r = ((None, appNameList), r)"
| "deleteOldDaemons (ds # rest) appNameList r =
     (case Labels ds appLabelKey of
        None \<Rightarrow> deleteOldDaemons rest appNameList r
      | Some appLabel \<Rightarrow>
          if HasPrefix appLabel oldLVDiskMakerPrefix \<or> HasPrefix appLabel oldLVProvisionerPrefix
          then
            (case clientDelete ds r of
               (err, r') \<Rightarrow>
                 if err \<noteq> None \<and> \<not> (IsNotFound err \<or> IsGone err)
                 then ((err, appNameList @ [appLabel]), r')
                 else deleteOldDaemons rest (appNameList @ [appLabel]) r')
          else deleteOldDaemons rest appNameList r)"

text \<open>
  The condition function of lines 147-166. The closure captures \<^verbatim>\<open>appNameList\<close> by
  reference and appends to it, so the list is part of the state it transforms.
\<close>

definition podsGone ::
  "string list \<times> 'w DaemonReconciler \<Rightarrow>
     (bool \<times> error option) \<times> (string list \<times> 'w DaemonReconciler)" where
  "podsGone st =
     (case st of
        (appNameList, r) \<Rightarrow>
          let appNameList' = appNameList @ [oldProvisionerName] in
          (case NewRequirement appLabelKey In appNameList' of
             (err, requirement) \<Rightarrow>
               if err \<noteq> None then ((False, err), (appNameList', r))
               else
                 let selector = Add NewSelector requirement in
                 (case clientListPods selector r of
                    ((err, items), r') \<Rightarrow>
                      if err \<noteq> None \<and> \<not> IsNotFound err then ((False, err), (appNameList', r'))
                      else if length items = 0 then ((True, None), (appNameList', r'))
                      else ((False, None), (appNameList', r')))))"

definition cleanupBackoff :: Backoff where
  "cleanupBackoff = \<lparr>Duration = Second, Factor = 17 / 10, Jitter = 1, Steps = 20, Cap = Minute * 2\<rparr>"

text \<open>Lines 140-172: wait for the pods to die, then set the latch.\<close>

definition waitForPods ::
  "string list \<Rightarrow> 'w DaemonReconciler \<Rightarrow> error option \<times> 'w DaemonReconciler" where
  "waitForPods appNameList r =
     (case ExponentialBackoff cleanupBackoff podsGone (appNameList, r) of
        (err, (appNameList', r')) \<Rightarrow>
          if err \<noteq> None then (err, r')
          else (None, r'\<lparr>deletedStaticProvisioner := True\<rparr>))"

definition cleanupOldDaemonsets ::
  "string \<Rightarrow> 'w DaemonReconciler \<Rightarrow> error option \<times> 'w DaemonReconciler" where
  "cleanupOldDaemonsets namespace r =
     (if deletedStaticProvisioner r then (None, r)
      else
        (case clientListDaemonSets namespace r of
           ((err, items), r1) \<Rightarrow>
             if err \<noteq> None then (err, r1)
             else
               (case deleteOldDaemons items [] r1 of
                  ((err, appNameList), r2) \<Rightarrow>
                    if err \<noteq> None then (err, r2)
                    else
                      (case clientGetDaemonSet namespace oldProvisionerName r2 of
                         ((err, provisioner), r3) \<Rightarrow>
                           if err = None then
                             (case clientDelete provisioner r3 of
                                (err, r4) \<Rightarrow>
                                  if err \<noteq> None \<and> \<not> (IsNotFound err \<or> IsGone err)
                                  then (err, r4)
                                  else waitForPods appNameList r4)
                           else if \<not> (IsNotFound err \<or> IsGone err) then (err, r3)
                           else waitForPods appNameList r3))))"

subsection \<open>\<^verbatim>\<open>Reconcile\<close> (lines 58-93)\<close>

text \<open>
  \<^verbatim>\<open>Reconcile\<close> calls five functions of this package that are defined in other files:
  \<^verbatim>\<open>aggregateDeamonInfo\<close>, \<^verbatim>\<open>reconcileProvisionerConfigMap\<close>, \<^verbatim>\<open>dataHash\<close>,
  \<^verbatim>\<open>getDiskMakerDSMutateFn\<close> and \<^verbatim>\<open>CreateOrUpdateDaemonset\<close>. They are parameters of the
  model. The first two are methods of the reconciler and the last one receives its
  client, so these three transform the reconciler; the other two are pure.
\<close>

record DaemonInfo =
  lvSets :: "LocalVolumeSet list"
  lvs :: "LocalVolume list"
  tolerations :: "Toleration list"
  ownerRefs :: "OwnerReference list"
  nodeSelector :: "NodeSelector option"

record Result =
  Requeue :: bool
  RequeueAfter :: int

definition emptyResult :: Result where
  "emptyResult = \<lparr>Requeue = False, RequeueAfter = 0\<rparr>"

record 'w Helpers =
  aggregateDeamonInfo ::
    "Request \<Rightarrow> 'w DaemonReconciler \<Rightarrow> (DaemonInfo \<times> error option) \<times> 'w DaemonReconciler"
  reconcileProvisionerConfigMap ::
    "Request \<Rightarrow> LocalVolumeSet list \<Rightarrow> LocalVolume list \<Rightarrow> OwnerReference list \<Rightarrow>
       'w DaemonReconciler \<Rightarrow> ((ConfigMap \<times> OperationResult) \<times> error option) \<times> 'w DaemonReconciler"
  dataHash :: "(string \<rightharpoonup> string) \<Rightarrow> string"
  getDiskMakerDSMutateFn ::
    "Request \<Rightarrow> Toleration list \<Rightarrow> OwnerReference list \<Rightarrow> NodeSelector option \<Rightarrow> string \<Rightarrow>
       DaemonSet \<Rightarrow> DaemonSet"
  CreateOrUpdateDaemonset ::
    "(DaemonSet \<Rightarrow> DaemonSet) \<Rightarrow> 'w DaemonReconciler \<Rightarrow>
       ((DaemonSet \<times> OperationResult) \<times> error option) \<times> 'w DaemonReconciler"

definition Reconcile ::
  "'w Helpers \<Rightarrow> Request \<Rightarrow> 'w DaemonReconciler \<Rightarrow> (Result \<times> error option) \<times> 'w DaemonReconciler" where
  "Reconcile h request r =
     (case cleanupOldDaemonsets (RequestNamespace request) r of
        (err, r1) \<Rightarrow>
          if err \<noteq> None then ((emptyResult, err), r1)
          else
            (case aggregateDeamonInfo h request r1 of
               ((info, err), r2) \<Rightarrow>
                 if err \<noteq> None then ((emptyResult, err), r2)
                 else if length (lvSets info) < 1 \<and> length (lvs info) < 1
                 then ((emptyResult, None), r2)
                 else
                   (case reconcileProvisionerConfigMap h request (lvSets info) (lvs info)
                           (ownerRefs info) r2 of
                      (((configMap, opResult), err), r3) \<Rightarrow>
                        if err \<noteq> None then ((emptyResult, err), r3)
                        else
                          let configMapDataHash = dataHash h (Data configMap);
                              diskMakerDSMutateFn =
                                getDiskMakerDSMutateFn h request (tolerations info) (ownerRefs info)
                                  (nodeSelector info) configMapDataHash
                          in
                            (case CreateOrUpdateDaemonset h diskMakerDSMutateFn r3 of
                               (((ds, opResult), err), r4) \<Rightarrow>
                                 if err \<noteq> None then ((emptyResult, err), r4)
                                 else ((emptyResult, err), r4)))))"

subsection \<open>The helpers that set and write the fingerprint annotation\<close>

text \<open>
  Modelled from the spec: \<^verbatim>\<open>getDiskMakerDSMutateFn\<close> is defined outside the file at hand.
  Section 4.4, step 5 of the specification: the mutation function sets tolerations,
  owner references, node selector, and the fingerprint annotation.
\<close>

definition getDiskMakerDSMutateFn_spec ::
  "Request \<Rightarrow> Toleration list \<Rightarrow> OwnerReference list \<Rightarrow> NodeSelector option \<Rightarrow> string \<Rightarrow>
     DaemonSet \<Rightarrow> DaemonSet" where
  "getDiskMakerDSMutateFn_spec request tols owners sel hash ds =
     ds\<lparr>Tolerations := tols, OwnerReferences := owners, NodeSelectorOf := sel,
        Annotations := (Annotations ds)(dataHashAnnotationKey \<mapsto> hash)\<rparr>"

text \<open>
  Modelled from the spec: \<^verbatim>\<open>CreateOrUpdateDaemonset\<close> is defined outside the file at hand.
  Section 4.2 of the specification: fetch by identity; if not found, construct an empty
  object; apply the mutation function; compare the result with the snapshot taken before
  the mutation; if it changed, write (create if the object was absent, else update);
  report unchanged, created or updated. Fetch errors other than not-found and write
  errors propagate. The empty object carries the identity it was looked up under.
\<close>

definition CreateOrUpdateDaemonset_spec ::
  "string \<Rightarrow> string \<Rightarrow> (DaemonSet \<Rightarrow> DaemonSet) \<Rightarrow> 'w DaemonReconciler \<Rightarrow>
     ((DaemonSet \<times> OperationResult) \<times> error option) \<times> 'w DaemonReconciler" where
  "CreateOrUpdateDaemonset_spec namespace name mutateFn r =
     (case clientGetDaemonSet namespace name r of
        ((err, fetched), r1) \<Rightarrow>
          if err \<noteq> None \<and> \<not> IsNotFound err
          then (((fetched, OperationResultNone), err), r1)
          else
            let absent = IsNotFound err;
                snapshot = (if absent then emptyDaemonSet\<lparr>Name := name, Namespace := namespace\<rparr>
                            else fetched);
                mutated = mutateFn snapshot
            in
              if mutated = snapshot then (((mutated, OperationResultNone), None), r1)
              else if absent then
                (case clientCreate mutated r1 of
                   (err, r2) \<Rightarrow>
                     if err \<noteq> None then (((mutated, OperationResultNone), err), r2)
                     else (((mutated, OperationResultCreated), None), r2))
              else
                (case clientUpdate mutated r1 of
                   (err, r2) \<Rightarrow>
                     if err \<noteq> None then (((mutated, OperationResultNone), err), r2)
                     else (((mutated, OperationResultUpdated), None), r2)))"

section \<open>Vocabulary for the properties\<close>

text \<open>
  The loop of lines 109-123 deletes a daemonset when it has an \<^verbatim>\<open>app\<close> label whose value
  starts with one of the two old prefixes. \<open>oldDaemons\<close> are those items of a listing, in
  order, and \<open>oldAppNames\<close> their label values. A delete answer is tolerated when it is
  \<^verbatim>\<open>nil\<close>, not-found or gone (lines 118 and 131); a pod-list answer is tolerated when it is
  \<^verbatim>\<open>nil\<close> or not-found (line 159).
\<close>

definition hasOldPrefix :: "string \<Rightarrow> bool" where
  "hasOldPrefix l = (HasPrefix l oldLVDiskMakerPrefix \<or> HasPrefix l oldLVProvisionerPrefix)"

definition isOldDaemon :: "DaemonSet \<Rightarrow> bool" where
  "isOldDaemon ds = (case Labels ds appLabelKey of None \<Rightarrow> False | Some l \<Rightarrow> hasOldPrefix l)"

definition oldDaemons :: "DaemonSet list \<Rightarrow> DaemonSet list" where
  "oldDaemons dss = filter isOldDaemon dss"

definition oldAppNames :: "DaemonSet list \<Rightarrow> string list" where
  "oldAppNames dss =
     List.map_filter (\<lambda>ds. case Labels ds appLabelKey of
                              None \<Rightarrow> None
                            | Some l \<Rightarrow> if hasOldPrefix l then Some l else None) dss"

definition okDelete :: "error option \<Rightarrow> bool" where
  "okDelete err = (err = None \<or> IsNotFound err \<or> IsGone err)"

definition okList :: "error option \<Rightarrow> bool" where
  "okList err = (err = None \<or> IsNotFound err)"

text \<open>
  The events a call added to the history, and what kind of event each is.
\<close>

definition newEvents :: "'w DaemonReconciler \<Rightarrow> 'w DaemonReconciler \<Rightarrow> event list" where
  "newEvents r r' = drop (length (history r)) (history r')"

fun isPodListing :: "event \<Rightarrow> bool" where
  "isPodListing (ListedPods sel e items) = True"
| "isPodListing _ = False"

fun isDeletion :: "event \<Rightarrow> bool" where
  "isDeletion (DeletedDaemonSet ds e) = True"
| "isDeletion _ = False"

fun isWrite :: "event \<Rightarrow> bool" where
  "isWrite (CreatedDaemonSet ds e) = True"
| "isWrite (UpdatedDaemonSet ds e) = True"
| "isWrite _ = False"

fun selectorOf :: "event \<Rightarrow> Selector" where
  "selectorOf (ListedPods sel e items) = sel"
| "selectorOf _ = []"

definition podSelectors :: "event list \<Rightarrow> Selector list" where
  "podSelectors evs = map selectorOf (filter isPodListing evs)"

text \<open>
  \<open>requirementFor names\<close> is the requirement line 152 builds from the name list, and
  \<open>iter cond k\<close> is the state after \<open>k\<close> calls of a condition function.
\<close>

definition requirementFor :: "string list \<Rightarrow> Requirement" where
  "requirementFor names = \<lparr>key = appLabelKey, operator = In, strValues = names\<rparr>"

definition iter :: "('st \<Rightarrow> (bool \<times> error option) \<times> 'st) \<Rightarrow> nat \<Rightarrow> 'st \<Rightarrow> 'st" where
  "iter cond k st = ((\<lambda>s. snd (cond s)) ^^ k) st"

text \<open>
  The shape of what the drain wait adds to the history. Attempt \<open>i\<close> (counted from 0)
  lists pods with the selector built from the names followed by \<open>i + 1\<close> copies of
  \<open>oldProvisionerName\<close>, and its answer comes from the client. An attempt says "not yet"
  when the answer is tolerated and not empty. The wait ends in one of four ways: the
  requirement cannot be built, the listing fails, the steps run out, or no pod is left.
  The last argument is the latch afterwards.
\<close>

definition pollEvent :: "string list \<Rightarrow> 'w Client \<Rightarrow> nat \<Rightarrow> event \<Rightarrow> bool" where
  "pollEvent names c i ev =
     (\<exists>e items w. ev = ListedPods [requirementFor (names @ replicate (Suc i) oldProvisionerName)] e items \<and>
        (e, items) = fst (List_Pods c [requirementFor (names @ replicate (Suc i) oldProvisionerName)] w) \<and>
        fst (NewRequirement appLabelKey In (names @ replicate (Suc i) oldProvisionerName)) = None)"

fun notYet :: "event \<Rightarrow> bool" where
  "notYet (ListedPods sel e items) = (okList e \<and> items \<noteq> [])"
| "notYet _ = False"

definition pollPrefix :: "string list \<Rightarrow> 'w Client \<Rightarrow> nat \<Rightarrow> event list \<Rightarrow> bool" where
  "pollPrefix names c n evs =
     (length evs = n \<and> (\<forall>i<n. pollEvent names c i (evs ! i) \<and> notYet (evs ! i)))"

inductive pollRun :: "string list \<Rightarrow> 'w Client \<Rightarrow> event list \<Rightarrow> error option \<Rightarrow> bool \<Rightarrow> bool" where
  SelectorFailed:
    "pollPrefix names c n evs \<Longrightarrow> n < 20 \<Longrightarrow>
     err = fst (NewRequirement appLabelKey In (names @ replicate (Suc n) oldProvisionerName)) \<Longrightarrow>
     err \<noteq> None \<Longrightarrow> pollRun names c evs err False"
| PodListFailed:
    "pollPrefix names c n evs \<Longrightarrow> n < 20 \<Longrightarrow> pollEvent names c n (ListedPods sel err items) \<Longrightarrow>
     \<not> okList err \<Longrightarrow> pollRun names c (evs @ [ListedPods sel err items]) err False"
| TimedOut:
    "pollPrefix names c n evs \<Longrightarrow> 1 \<le> n \<Longrightarrow> n \<le> 20 \<Longrightarrow>
     pollRun names c evs (Some ErrWaitTimeout) False"
| Drained:
    "pollPrefix names c n evs \<Longrightarrow> n < 20 \<Longrightarrow> pollEvent names c n (ListedPods sel e []) \<Longrightarrow>
     okList e \<Longrightarrow> pollRun names c (evs @ [ListedPods sel e []]) None True"

text \<open>
  The shape of what \<open>cleanupOldDaemonsets\<close> adds to the history when the latch is false,
  one rule for each place where the function returns.
\<close>

definition deletions :: "DaemonSet list \<Rightarrow> error option list \<Rightarrow> event list" where
  "deletions dss resps = map2 DeletedDaemonSet dss resps"

inductive cleanupRun :: "string \<Rightarrow> 'w Client \<Rightarrow> event list \<Rightarrow> error option \<Rightarrow> bool \<Rightarrow> bool" where
  ListFailed:
    "err \<noteq> None \<Longrightarrow> cleanupRun ns c [ListedDaemonSets ns err items] err False"
| DeleteFailed:
    "length resps \<le> length (oldDaemons items) \<Longrightarrow> resps \<noteq> [] \<Longrightarrow>
     list_all okDelete (butlast resps) \<Longrightarrow> \<not> okDelete (last resps) \<Longrightarrow>
     cleanupRun ns c (ListedDaemonSets ns None items # deletions (oldDaemons items) resps)
       (last resps) False"
| GetFailed:
    "length resps = length (oldDaemons items) \<Longrightarrow> list_all okDelete resps \<Longrightarrow>
     \<not> okDelete err \<Longrightarrow>
     cleanupRun ns c
       (ListedDaemonSets ns None items # deletions (oldDaemons items) resps @
        [GotDaemonSet ns oldProvisionerName err p]) err False"
| ProvisionerDeleteFailed:
    "length resps = length (oldDaemons items) \<Longrightarrow> list_all okDelete resps \<Longrightarrow>
     \<not> okDelete err \<Longrightarrow>
     cleanupRun ns c
       (ListedDaemonSets ns None items # deletions (oldDaemons items) resps @
        [GotDaemonSet ns oldProvisionerName None p, DeletedDaemonSet p err]) err False"
| WaitedFound:
    "length resps = length (oldDaemons items) \<Longrightarrow> list_all okDelete resps \<Longrightarrow>
     okDelete derr \<Longrightarrow> pollRun (oldAppNames items) c polls err latch \<Longrightarrow>
     cleanupRun ns c
       (ListedDaemonSets ns None items # deletions (oldDaemons items) resps @
        [GotDaemonSet ns oldProvisionerName None p, DeletedDaemonSet p derr] @ polls) err latch"
| WaitedAbsent:
    "length resps = length (oldDaemons items) \<Longrightarrow> list_all okDelete resps \<Longrightarrow>
     gerr \<noteq> None \<Longrightarrow> okDelete gerr \<Longrightarrow> pollRun (oldAppNames items) c polls err latch \<Longrightarrow>
     cleanupRun ns c
       (ListedDaemonSets ns None items # deletions (oldDaemons items) resps @
        [GotDaemonSet ns oldProvisionerName gerr p] @ polls) err latch"

text \<open>
  The helpers of \<open>Reconcile\<close> are defined in other files; that they do not clear the
  latch is an assumption about them, stated here.
\<close>

definition helpersKeepLatch :: "'w Helpers \<Rightarrow> bool" where
  "helpersKeepLatch h =
     (\<forall>r. deletedStaticProvisioner r \<longrightarrow>
        (\<forall>request. deletedStaticProvisioner (snd (aggregateDeamonInfo h request r))) \<and>
        (\<forall>request sets vols owners.
           deletedStaticProvisioner (snd (reconcileProvisionerConfigMap h request sets vols owners r))) \<and>
        (\<forall>mutateFn. deletedStaticProvisioner (snd (CreateOrUpdateDaemonset h mutateFn r))))"

section \<open>A concrete cluster\<close>

text \<open>
  An in-memory object store behind the client, for running the functions on concrete
  input. Pod listings answer from a script, one entry per call and nothing once it is used
  up, filtered by the selector: this stands for pods that terminate after their daemonset
  is deleted. The cluster starts with a daemonset that has no \<^verbatim>\<open>app\<close> label, an old diskmaker
  daemonset, and a daemonset with the old provisioner's name whose \<^verbatim>\<open>app\<close> label is
  something else.
\<close>

record Cluster =
  daemonSets :: "DaemonSet list"
  podAnswers :: "(error option \<times> Pod list) list"

definition sameObject :: "DaemonSet \<Rightarrow> DaemonSet \<Rightarrow> bool" where
  "sameObject a b = (Namespace a = Namespace b \<and> Name a = Name b)"

definition storeClient :: "Cluster Client" where
  "storeClient = \<lparr>
     List_DaemonSets = (\<lambda>ns w. ((None, filter (\<lambda>d. Namespace d = ns) (daemonSets w)), w)),
     Get_DaemonSet = (\<lambda>ns n w.
        case find (\<lambda>d. Namespace d = ns \<and> Name d = n) (daemonSets w) of
          None \<Rightarrow> ((Some (StatusError StatusReasonNotFound), emptyDaemonSet), w)
        | Some d \<Rightarrow> ((None, d), w)),
     Delete_DaemonSet = (\<lambda>ds w.
        if list_ex (sameObject ds) (daemonSets w)
        then (None, w\<lparr>daemonSets := filter (\<lambda>d. \<not> sameObject ds d) (daemonSets w)\<rparr>)
        else (Some (StatusError StatusReasonNotFound), w)),
     Create_DaemonSet = (\<lambda>ds w.
        if list_ex (sameObject ds) (daemonSets w)
        then (Some (StatusError StatusReasonConflict), w)
        else (None, w\<lparr>daemonSets := daemonSets w @ [ds]\<rparr>)),
     Update_DaemonSet = (\<lambda>ds w.
        if list_ex (sameObject ds) (daemonSets w)
        then (None, w\<lparr>daemonSets := map (\<lambda>d. if sameObject ds d then ds else d) (daemonSets w)\<rparr>)
        else (Some (StatusError StatusReasonNotFound), w)),
     List_Pods = (\<lambda>sel w.
        case podAnswers w of
          [] \<Rightarrow> ((None, []), w)
        | (err, ps) # rest \<Rightarrow>
            ((err, filter (\<lambda>p. Matches sel (PodLabels p)) ps), w\<lparr>podAnswers := rest\<rparr>))\<rparr>"

text \<open>
  What such a store keeps through a cleanup: an object is retired in a namespace when it
  lives there and has an old \<^verbatim>\<open>app\<close> label or the old provisioner's name. The store holds at
  most one object under a namespace and name.
\<close>

definition retired :: "string \<Rightarrow> DaemonSet \<Rightarrow> bool" where
  "retired ns d = (Namespace d = ns \<and> (isOldDaemon d \<or> Name d = oldProvisionerName))"

definition objectKey :: "DaemonSet \<Rightarrow> string \<times> string" where
  "objectKey d = (Namespace d, Name d)"

definition unretired :: "string \<Rightarrow> Cluster \<Rightarrow> DaemonSet list" where
  "unretired ns w = filter (\<lambda>d. \<not> retired ns d) (daemonSets w)"

definition legacyDiskmaker :: DaemonSet where
  "legacyDiskmaker = emptyDaemonSet\<lparr>Name := ''local-volume-diskmaker-fast'', Namespace := ''storage'',
     Labels := [appLabelKey \<mapsto> ''local-volume-diskmaker-fast'']\<rparr>"

definition legacyProvisioner :: DaemonSet where
  "legacyProvisioner = emptyDaemonSet\<lparr>Name := oldProvisionerName, Namespace := ''storage'',
     Labels := [appLabelKey \<mapsto> ''legacy'']\<rparr>"

definition unrelated :: DaemonSet where
  "unrelated = emptyDaemonSet\<lparr>Name := ''node-exporter'', Namespace := ''storage''\<rparr>"

definition diskmakerPod :: Pod where
  "diskmakerPod = \<lparr>PodName = ''local-volume-diskmaker-fast-x7'', PodNamespace = ''storage'',
     PodLabels = [appLabelKey \<mapsto> ''local-volume-diskmaker-fast'']\<rparr>"

definition startCluster :: Cluster where
  "startCluster = \<lparr>daemonSets = [unrelated, legacyDiskmaker, legacyProvisioner],
                    podAnswers = [(None, [diskmakerPod])]\<rparr>"

definition startReconciler :: "Cluster DaemonReconciler" where
  "startReconciler = \<lparr>client = storeClient, cluster = startCluster, history = [],
                       deletedStaticProvisioner = False\<rparr>"

text \<open>
  Variations: the latch already set; every delete refused; every delete answered
  not-found; pods that never go away; every pod listing refused, which leaves the pod list
  empty.
\<close>

definition doneReconciler :: "Cluster DaemonReconciler" where
  "doneReconciler = startReconciler\<lparr>deletedStaticProvisioner := True\<rparr>"

definition forbiddenReconciler :: "Cluster DaemonReconciler" where
  "forbiddenReconciler = startReconciler\<lparr>client :=
     storeClient\<lparr>Delete_DaemonSet := (\<lambda>ds w. (Some (StatusError StatusReasonForbidden), w))\<rparr>\<rparr>"

definition vanishedReconciler :: "Cluster DaemonReconciler" where
  "vanishedReconciler = startReconciler\<lparr>client :=
     storeClient\<lparr>Delete_DaemonSet := (\<lambda>ds w. (Some (StatusError StatusReasonNotFound), w))\<rparr>\<rparr>"

definition stuckReconciler :: "Cluster DaemonReconciler" where
  "stuckReconciler = startReconciler\<lparr>client :=
     storeClient\<lparr>List_Pods := (\<lambda>sel w. ((None, [diskmakerPod]), w))\<rparr>\<rparr>"


text \<open>
  Helpers for \<open>Reconcile\<close>: a fixed desired state and configuration, a toy fingerprint,
  and the mutation function and upsert modelled from the specification. The idle helpers
  aggregate to an empty desired state.
\<close>

definition exampleRequest :: Request where
  "exampleRequest = \<lparr>RequestNamespace = ''storage'', RequestName = ''fast-disks''\<rparr>"

definition exampleInfo :: DaemonInfo where
  "exampleInfo = \<lparr>lvSets = [LocalVolumeSet ''fast-disks''], lvs = [], tolerations = [],
     ownerRefs = [OwnerReference ''fast-disks''], nodeSelector = None\<rparr>"

definition exampleConfigMap :: ConfigMap where
  "exampleConfigMap = \<lparr>ConfigMapName = ''local-provisioner'', ConfigMapNamespace = ''storage'',
     Data = [''storageClassMap'' \<mapsto> ''fast-disks'']\<rparr>"

definition toyHash :: "(string \<rightharpoonup> string) \<Rightarrow> string" where
  "toyHash m = (case m ''storageClassMap'' of None \<Rightarrow> ''none'' | Some v \<Rightarrow> v)"

definition exampleHelpers :: "Cluster Helpers" where
  "exampleHelpers = \<lparr>
     aggregateDeamonInfo = (\<lambda>request r. ((exampleInfo, None), r)),
     reconcileProvisionerConfigMap =
       (\<lambda>request sets vols owners r. (((exampleConfigMap, OperationResultCreated), None), r)),
     dataHash = toyHash,
     getDiskMakerDSMutateFn = getDiskMakerDSMutateFn_spec,
     CreateOrUpdateDaemonset = CreateOrUpdateDaemonset_spec ''storage'' DiskMakerName\<rparr>"

definition idleHelpers :: "Cluster Helpers" where
  "idleHelpers = exampleHelpers\<lparr>aggregateDeamonInfo :=
     (\<lambda>request r. ((exampleInfo\<lparr>lvSets := [], lvs := []\<rparr>, None), r))\<rparr>"

section \<open>Lemmas\<close>

subsection \<open>The client calls\<close>

lemma clientDelete_eq:
  "clientDelete ds r = (err, r') \<Longrightarrow>
     client r' = client r \<and> deletedStaticProvisioner r' = deletedStaticProvisioner r \<and>
     history r' = history r @ [DeletedDaemonSet ds err] \<and>
     err = fst (Delete_DaemonSet (client r) ds (cluster r))"
  by (auto simp: clientDelete_def split: prod.splits)

lemma clientListDaemonSets_eq:
  "clientListDaemonSets ns r = ((err, items), r') \<Longrightarrow>
     client r' = client r \<and> deletedStaticProvisioner r' = deletedStaticProvisioner r \<and>
     history r' = history r @ [ListedDaemonSets ns err items] \<and>
     (err, items) = fst (List_DaemonSets (client r) ns (cluster r))"
  by (auto simp: clientListDaemonSets_def split: prod.splits)

lemma clientGetDaemonSet_eq:
  "clientGetDaemonSet ns n r = ((err, ds), r') \<Longrightarrow>
     client r' = client r \<and> deletedStaticProvisioner r' = deletedStaticProvisioner r \<and>
     history r' = history r @ [GotDaemonSet ns n err ds] \<and>
     (err, ds) = fst (Get_DaemonSet (client r) ns n (cluster r))"
  by (auto simp: clientGetDaemonSet_def split: prod.splits)

lemma clientListPods_eq:
  "clientListPods sel r = ((err, items), r') \<Longrightarrow>
     client r' = client r \<and> deletedStaticProvisioner r' = deletedStaticProvisioner r \<and>
     history r' = history r @ [ListedPods sel err items] \<and>
     (err, items) = fst (List_Pods (client r) sel (cluster r))"
  by (auto simp: clientListPods_def split: prod.splits)

lemma clientCreate_eq:
  "clientCreate ds r = (err, r') \<Longrightarrow>
     client r' = client r \<and> deletedStaticProvisioner r' = deletedStaticProvisioner r \<and>
     history r' = history r @ [CreatedDaemonSet ds err]"
  by (auto simp: clientCreate_def split: prod.splits)

lemma clientUpdate_eq:
  "clientUpdate ds r = (err, r') \<Longrightarrow>
     client r' = client r \<and> deletedStaticProvisioner r' = deletedStaticProvisioner r \<and>
     history r' = history r @ [UpdatedDaemonSet ds err]"
  by (auto simp: clientUpdate_def split: prod.splits)

lemma newEvents_append: "history r' = history r @ evs \<Longrightarrow> newEvents r r' = evs"
  by (simp add: newEvents_def)

subsection \<open>The delete loop\<close>

lemma oldAppNames_eq:
  "map (\<lambda>ds. the (Labels ds appLabelKey)) (oldDaemons dss) = oldAppNames dss"
  by (induction dss)
     (auto simp: oldDaemons_def oldAppNames_def isOldDaemon_def List.map_filter_simps
           split: option.splits)

lemma deleteOldDaemons_shape:
  "deleteOldDaemons dss names r = ((err, names'), r') \<Longrightarrow>
     client r' = client r \<and> deletedStaticProvisioner r' = deletedStaticProvisioner r \<and>
     (\<exists>resps. length resps \<le> length (oldDaemons dss) \<and>
        history r' = history r @ map2 DeletedDaemonSet (oldDaemons dss) resps \<and>
        (err = None \<longrightarrow> length resps = length (oldDaemons dss) \<and> list_all okDelete resps \<and>
           names' = names @ map (\<lambda>ds. the (Labels ds appLabelKey)) (oldDaemons dss)) \<and>
        (err \<noteq> None \<longrightarrow> resps \<noteq> [] \<and> last resps = err \<and> \<not> okDelete err \<and>
           list_all okDelete (butlast resps)))"
proof (induction dss arbitrary: names r)
  case Nil
  then show ?case by (simp add: oldDaemons_def)
next
  case (Cons ds rest)
  show ?case
  proof (cases "isOldDaemon ds")
    case False
    then have "deleteOldDaemons (ds # rest) names r = deleteOldDaemons rest names r"
      by (auto simp: isOldDaemon_def hasOldPrefix_def split: option.splits)
    with Cons.prems have "deleteOldDaemons rest names r = ((err, names'), r')" by simp
    from Cons.IH[OF this] False show ?thesis by (simp add: oldDaemons_def)
  next
    case True
    then obtain l where l: "Labels ds appLabelKey = Some l" "hasOldPrefix l"
      by (auto simp: isOldDaemon_def split: option.splits)
    obtain e r1 where d: "clientDelete ds r = (e, r1)" by (cases "clientDelete ds r")
    note d1 = clientDelete_eq[OF d]
    show ?thesis
    proof (cases "okDelete e")
      case ok: True
      then have "deleteOldDaemons (ds # rest) names r = deleteOldDaemons rest (names @ [l]) r1"
        using l d by (auto simp: hasOldPrefix_def okDelete_def)
      with Cons.prems have "deleteOldDaemons rest (names @ [l]) r1 = ((err, names'), r')" by simp
      from Cons.IH[OF this] obtain resps where
        a: "client r' = client r1" "deletedStaticProvisioner r' = deletedStaticProvisioner r1"
        and b: "length resps \<le> length (oldDaemons rest)"
           "history r' = history r1 @ map2 DeletedDaemonSet (oldDaemons rest) resps"
           "err = None \<longrightarrow> length resps = length (oldDaemons rest) \<and> list_all okDelete resps \<and>
              names' = (names @ [l]) @ map (\<lambda>ds. the (Labels ds appLabelKey)) (oldDaemons rest)"
           "err \<noteq> None \<longrightarrow> resps \<noteq> [] \<and> last resps = err \<and> \<not> okDelete err \<and>
              list_all okDelete (butlast resps)"
        by blast
      have od: "oldDaemons (ds # rest) = ds # oldDaemons rest"
        using True by (simp add: oldDaemons_def)
      show ?thesis
        apply (intro conjI)
        using a d1 apply simp
        using a d1 apply simp
        apply (rule exI[of _ "e # resps"])
        using b d1 ok l od by auto
    next
      case bad: False
      then have "deleteOldDaemons (ds # rest) names r = ((e, names @ [l]), r1)"
        using l d by (auto simp: hasOldPrefix_def okDelete_def)
      with Cons.prems have eq: "err = e" "r' = r1" by auto
      have od: "oldDaemons (ds # rest) = ds # oldDaemons rest"
        using True by (simp add: oldDaemons_def)
      show ?thesis
        apply (intro conjI)
        using eq d1 apply simp
        using eq d1 apply simp
        apply (rule exI[of _ "[e]"])
        using eq d1 bad od by (auto simp: okDelete_def)
    qed
  qed
qed

lemma old_name_not_prefixed: "\<not> hasOldPrefix oldProvisionerName"
  by (simp add: hasOldPrefix_def HasPrefix_def oldProvisionerName_def oldLVDiskMakerPrefix_def
        oldLVProvisionerPrefix_def)

lemma oldAppNames_prefixed: "l \<in> set (oldAppNames dss) \<Longrightarrow> hasOldPrefix l"
  by (induction dss)
     (auto simp: oldAppNames_def List.map_filter_simps split: option.splits if_splits)

lemma count_old_name:
  "count_list (oldAppNames dss @ replicate k oldProvisionerName) oldProvisionerName = k"
proof -
  have "oldProvisionerName \<notin> set (oldAppNames dss)"
    using oldAppNames_prefixed old_name_not_prefixed by blast
  then have "count_list (oldAppNames dss) oldProvisionerName = 0"
    by (simp add: count_list_0_iff)
  then show ?thesis by (induction k) (simp_all add: replicate_app_Cons_same)
qed

subsection \<open>The backoff loop\<close>

text \<open>
  The loop calls the condition at most \<open>Steps\<close> times, each call on the state the previous
  one left; all calls but the last said "not yet" without error.
\<close>

lemma iter_0: "iter cond 0 st = st" by (simp add: iter_def)

lemma iter_Suc: "iter cond (Suc k) st = iter cond k (snd (cond st))"
  by (simp only: iter_def funpow_Suc_right o_apply)

lemma iter_Suc_back: "iter cond (Suc k) st = snd (cond (iter cond k st))"
  by (simp add: iter_def)

lemma Step_Steps: "1 < Steps b \<Longrightarrow> Steps (Step b) < Steps b \<and> 0 \<le> Steps (Step b)"
  by (auto simp: Step_def Let_def)

lemma ExponentialBackoff_attempts:
  "\<exists>k. int k \<le> max 0 (Steps b) \<and> (0 < Steps b \<longrightarrow> 1 \<le> k) \<and>
        snd (ExponentialBackoff b cond st) = iter cond k st \<and>
        (\<forall>j. Suc j < k \<longrightarrow> fst (cond (iter cond j st)) = (False, None)) \<and>
        (case fst (ExponentialBackoff b cond st) of
           None \<Rightarrow> 1 \<le> k \<and> fst (cond (iter cond (k - 1) st)) = (True, None)
         | Some e \<Rightarrow>
             (1 \<le> k \<and> snd (fst (cond (iter cond (k - 1) st))) = Some e) \<or>
             (e = ErrWaitTimeout \<and> (\<forall>j < k. fst (cond (iter cond j st)) = (False, None))))"
proof (induction b cond st rule: ExponentialBackoff.induct)
  case (1 backoff condition st)
  show ?case
  proof (cases "0 < Steps backoff")
    case False
    then show ?thesis
      by (intro exI[of _ 0]) (simp add: iter_0 ExponentialBackoff.simps[of backoff condition st])
  next
    case pos: True
    obtain ok err st' where c: "condition st = ((ok, err), st')"
      by (metis surj_pair)
    show ?thesis
    proof (cases "err \<noteq> None \<or> ok")
      case True
      then have eb: "ExponentialBackoff backoff condition st = (err, st')"
        using pos c by (simp add: ExponentialBackoff.simps[of backoff condition st])
      show ?thesis
        apply (rule exI[of _ 1])
        using pos c True eb by (auto simp: iter_0 iter_Suc split: option.splits)
    next
      case cont: False
      show ?thesis
      proof (cases "Steps backoff = 1")
        case True
        then have eb: "ExponentialBackoff backoff condition st = (Some ErrWaitTimeout, st')"
          using pos c cont by (simp add: ExponentialBackoff.simps[of backoff condition st])
        show ?thesis
          apply (rule exI[of _ 1])
          using pos c cont eb by (auto simp: iter_0 iter_Suc)
      next
        case more: False
        then have eb: "ExponentialBackoff backoff condition st =
            ExponentialBackoff (Step backoff) condition st'"
          using pos c cont by (simp add: ExponentialBackoff.simps[of backoff condition st])
        from "1.IH"[OF pos c[symmetric] refl _ more] cont
        obtain k where k: "int k \<le> max 0 (Steps (Step backoff))"
            "0 < Steps (Step backoff) \<longrightarrow> 1 \<le> k"
            "snd (ExponentialBackoff (Step backoff) condition st') = iter condition k st'"
            "\<forall>j. Suc j < k \<longrightarrow> fst (condition (iter condition j st')) = (False, None)"
            "case fst (ExponentialBackoff (Step backoff) condition st') of
               None \<Rightarrow> 1 \<le> k \<and> fst (condition (iter condition (k - 1) st')) = (True, None)
             | Some e \<Rightarrow>
                 (1 \<le> k \<and> snd (fst (condition (iter condition (k - 1) st'))) = Some e) \<or>
                 (e = ErrWaitTimeout \<and> (\<forall>j < k. fst (condition (iter condition j st')) = (False, None)))"
          by auto
        have st: "1 < Steps backoff" using pos more by simp
        note ss = Step_Steps[OF st]
        have sh: "\<And>j. iter condition (Suc j) st = iter condition j st'"
          using c by (simp add: iter_Suc)
        have c0: "fst (condition (iter condition 0 st)) = (False, None)"
          using c cont by (simp add: iter_0)
        have all: "\<And>j. Suc j < Suc k \<Longrightarrow> fst (condition (iter condition j st)) = (False, None)"
        proof -
          fix j assume "Suc j < Suc k"
          show "fst (condition (iter condition j st)) = (False, None)"
          proof (cases j)
            case 0 then show ?thesis using c0 by simp
          next
            case (Suc i)
            then have "Suc i < k" using \<open>Suc j < Suc k\<close> by simp
            with k(4) have "fst (condition (iter condition i st')) = (False, None)" by blast
            then show ?thesis using Suc sh by simp
          qed
        qed
        have all2: "(\<forall>j<k. fst (condition (iter condition j st')) = (False, None)) \<Longrightarrow>
            (\<forall>j<Suc k. fst (condition (iter condition j st)) = (False, None))"
        proof (intro allI impI)
          fix j assume a: "\<forall>j<k. fst (condition (iter condition j st')) = (False, None)" and "j < Suc k"
          then show "fst (condition (iter condition j st)) = (False, None)"
            using c0 sh by (cases j) auto
        qed
        show ?thesis
          apply (rule exI[of _ "Suc k"])
          apply (intro conjI)
          using k(1) ss apply simp
          apply simp
          using eb k(3) sh apply simp
          using all apply blast
          using eb k(5) all2 sh
          apply (cases k)
           apply (auto split: option.splits simp: iter_0)
          done
      qed
    qed
  qed
qed

lemma Steps_cleanupBackoff: "Steps cleanupBackoff = 20"
  by (simp add: cleanupBackoff_def)



subsection \<open>The condition function\<close>

lemma NewRequirement_snd: "snd (NewRequirement k op vals) = \<lparr>key = k, operator = op, strValues = vals\<rparr>"
  by (simp add: NewRequirement_def Let_def split: option.splits)

lemma NewRequirement_again:
  "fst (NewRequirement k In (xs @ [v])) = None \<Longrightarrow> fst (NewRequirement k In ((xs @ [v]) @ [v])) = None"
  by (auto simp: NewRequirement_def Let_def find_None_iff split: if_splits option.splits)

lemma NewRequirement_replicate:
  "fst (NewRequirement k In (xs @ replicate (Suc n) v)) = None \<Longrightarrow>
   fst (NewRequirement k In (xs @ replicate (Suc (Suc n)) v)) = None"
  by (auto simp: NewRequirement_def Let_def find_None_iff split: if_splits option.splits)

lemma podsGone_cases:
  assumes "podsGone (names, r) = ((done, err), (names', r'))"
  shows "names' = names @ [oldProvisionerName]"
    and "client r' = client r"
    and "deletedStaticProvisioner r' = deletedStaticProvisioner r"
    and "(fst (NewRequirement appLabelKey In names') \<noteq> None \<and> r' = r \<and> \<not> done \<and>
            err = fst (NewRequirement appLabelKey In names')) \<or>
         (fst (NewRequirement appLabelKey In names') = None \<and>
            (\<exists>e items. history r' = history r @ [ListedPods [requirementFor names'] e items] \<and>
               (e, items) = fst (List_Pods (client r) [requirementFor names'] (cluster r)) \<and>
               (if okList e then done = (items = []) \<and> err = None else \<not> done \<and> err = e)))"
proof -
  obtain e0 req where n: "NewRequirement appLabelKey In (names @ [oldProvisionerName]) = (e0, req)"
    by (metis surj_pair)
  have req: "req = requirementFor (names @ [oldProvisionerName])"
    using NewRequirement_snd[of appLabelKey In "names @ [oldProvisionerName]"] n
    by (simp add: requirementFor_def)
  obtain e items r1 where l: "clientListPods [req] r = ((e, items), r1)"
    by (metis surj_pair)
  note l1 = clientListPods_eq[OF l]
  have "podsGone (names, r) =
      (if e0 \<noteq> None then ((False, e0), (names @ [oldProvisionerName], r))
       else if e \<noteq> None \<and> \<not> IsNotFound e then ((False, e), (names @ [oldProvisionerName], r1))
       else if length items = 0 then ((True, None), (names @ [oldProvisionerName], r1))
       else ((False, None), (names @ [oldProvisionerName], r1)))"
    using n l by (simp add: podsGone_def Let_def Add_def NewSelector_def)
  with assms have eq: "((done, err), (names', r')) =
      (if e0 \<noteq> None then ((False, e0), (names @ [oldProvisionerName], r))
       else if e \<noteq> None \<and> \<not> IsNotFound e then ((False, e), (names @ [oldProvisionerName], r1))
       else if length items = 0 then ((True, None), (names @ [oldProvisionerName], r1))
       else ((False, None), (names @ [oldProvisionerName], r1)))" by simp
  show nm: "names' = names @ [oldProvisionerName]"
    using eq by (simp split: if_splits)
  show "client r' = client r"
    using eq l1 by (auto split: if_splits)
  show "deletedStaticProvisioner r' = deletedStaticProvisioner r"
    using eq l1 by (auto split: if_splits)
  have f: "fst (NewRequirement appLabelKey In names') = e0" using n nm by simp
  show "(fst (NewRequirement appLabelKey In names') \<noteq> None \<and> r' = r \<and> \<not> done \<and>
            err = fst (NewRequirement appLabelKey In names')) \<or>
         (fst (NewRequirement appLabelKey In names') = None \<and>
            (\<exists>e items. history r' = history r @ [ListedPods [requirementFor names'] e items] \<and>
               (e, items) = fst (List_Pods (client r) [requirementFor names'] (cluster r)) \<and>
               (if okList e then done = (items = []) \<and> err = None else \<not> done \<and> err = e)))"
  proof (cases "e0 = None")
    case False
    then show ?thesis
      unfolding f using eq by simp
  next
    case True
    have h: "history r' = history r @ [ListedPods [requirementFor names'] e items]"
      using eq True l1 req nm by (auto split: if_splits)
    have a: "(e, items) = fst (List_Pods (client r) [requirementFor names'] (cluster r))"
      using l1 req nm by simp
    have b: "if okList e then done = (items = []) \<and> err = None else \<not> done \<and> err = e"
      using eq True by (auto simp: okList_def split: if_splits)
    show ?thesis
      unfolding f using True h a b by blast
  qed
qed

lemma podsGone_notyet:
  assumes "podsGone (names, r) = ((False, None), (names', r'))"
  shows "\<exists>e items. history r' = history r @ [ListedPods [requirementFor names'] e items] \<and>
           (e, items) = fst (List_Pods (client r) [requirementFor names'] (cluster r)) \<and>
           okList e \<and> items \<noteq> []"
    and "fst (NewRequirement appLabelKey In names') = None"
proof -
  from podsGone_cases(4)[OF assms]
  obtain e items where h: "history r' = history r @ [ListedPods [requirementFor names'] e items]"
     "(e, items) = fst (List_Pods (client r) [requirementFor names'] (cluster r))"
     "if okList e then False = (items = []) \<and> None = None else \<not> False \<and> None = e"
    and n: "fst (NewRequirement appLabelKey In names') = None"
    by auto
  have "okList e" using h(3) by (cases "okList e") (auto simp: okList_def)
  with h show "\<exists>e items. history r' = history r @ [ListedPods [requirementFor names'] e items] \<and>
           (e, items) = fst (List_Pods (client r) [requirementFor names'] (cluster r)) \<and>
           okList e \<and> items \<noteq> []" by auto
  show "fst (NewRequirement appLabelKey In names') = None" by (rule n)
qed


lemma podsGone_observed:
  assumes "podsGone (names, r) = ((allGone, err), (names', r'))"
    and "newEvents r r' = [ListedPods sel e items]" and "okList e"
  shows "allGone = (items = []) \<and> err = None"
proof -
  from podsGone_cases(4)[OF assms(1)] show ?thesis
  proof
    assume "fst (NewRequirement appLabelKey In names') \<noteq> None \<and> r' = r \<and> \<not> allGone \<and>
            err = fst (NewRequirement appLabelKey In names')"
    then show ?thesis using assms(2) by (simp add: newEvents_def)
  next
    assume "fst (NewRequirement appLabelKey In names') = None \<and>
            (\<exists>e items. history r' = history r @ [ListedPods [requirementFor names'] e items] \<and>
               (e, items) = fst (List_Pods (client r) [requirementFor names'] (cluster r)) \<and>
               (if okList e then allGone = (items = []) \<and> err = None else \<not> allGone \<and> err = e))"
    then obtain e' items' where
      h: "history r' = history r @ [ListedPods [requirementFor names'] e' items']"
      and d: "if okList e' then allGone = (items' = []) \<and> err = None else \<not> allGone \<and> err = e'"
      by blast
    have "newEvents r r' = [ListedPods [requirementFor names'] e' items']"
      using h by (rule newEvents_append)
    with assms(2) have "e' = e" "items' = items" by simp_all
    then show ?thesis using d assms(3) by simp
  qed
qed

lemma podsGone_next_attempt:
  assumes "podsGone (names, r) = ((False, None), (names', r'))"
  shows "\<exists>e items. newEvents r' (snd (snd (podsGone (names', r')))) =
           [ListedPods [requirementFor (names' @ [oldProvisionerName])] e items]"
proof -
  have n: "names' = names @ [oldProvisionerName]" by (rule podsGone_cases(1)[OF assms])
  have "fst (NewRequirement appLabelKey In names') = None"
    using podsGone_cases(4)[OF assms] by auto
  then have ok: "fst (NewRequirement appLabelKey In (names' @ [oldProvisionerName])) = None"
    unfolding n by (rule NewRequirement_again)
  obtain d e n2 r2 where p: "podsGone (names', r') = ((d, e), (n2, r2))" by (metis surj_pair)
  have n2: "n2 = names' @ [oldProvisionerName]" by (rule podsGone_cases(1)[OF p])
  from podsGone_cases(4)[OF p] ok n2 obtain e' items where
    "history r2 = history r' @ [ListedPods [requirementFor n2] e' items]" by auto
  then have "newEvents r' r2 = [ListedPods [requirementFor n2] e' items]"
    by (rule newEvents_append)
  then show ?thesis using p n2 by auto
qed

lemma iter_podsGone_names:
  "fst (iter podsGone k (names, r)) = names @ replicate k oldProvisionerName"
proof (induction k)
  case 0 show ?case by (simp add: iter_0)
next
  case (Suc k)
  obtain ns rk where s: "iter podsGone k (names, r) = (ns, rk)" by (metis surj_pair)
  obtain d e ns' r' where p: "podsGone (ns, rk) = ((d, e), (ns', r'))" by (metis surj_pair)
  from podsGone_cases(1)[OF p] Suc s p show ?case
    by (simp add: iter_Suc_back replicate_append_same)
qed

lemma iter_podsGone_frame:
  "client (snd (iter podsGone k (names, r))) = client r \<and>
   deletedStaticProvisioner (snd (iter podsGone k (names, r))) = deletedStaticProvisioner r"
proof (induction k)
  case 0 show ?case by (simp add: iter_0)
next
  case (Suc k)
  obtain ns rk where s: "iter podsGone k (names, r) = (ns, rk)" by (metis surj_pair)
  obtain d e ns' r' where p: "podsGone (ns, rk) = ((d, e), (ns', r'))" by (metis surj_pair)
  from podsGone_cases(2,3)[OF p] Suc s p show ?case
    by (simp add: iter_Suc_back)
qed

lemma iter_podsGone_history:
  assumes "\<forall>i<k. fst (podsGone (iter podsGone i (names, r))) = (False, None)"
  shows "\<exists>evs. history (snd (iter podsGone k (names, r))) = history r @ evs \<and> length evs = k \<and>
           (\<forall>i<k. pollEvent names (client r) i (evs ! i) \<and>
              (\<exists>sel e items. evs ! i = ListedPods sel e items \<and> okList e \<and> items \<noteq> []))"
  using assms
proof (induction k)
  case 0 show ?case by (simp add: iter_0)
next
  case (Suc k)
  then obtain evs where evs: "history (snd (iter podsGone k (names, r))) = history r @ evs"
      "length evs = k"
      "\<forall>i<k. pollEvent names (client r) i (evs ! i) \<and>
              (\<exists>sel e items. evs ! i = ListedPods sel e items \<and> okList e \<and> items \<noteq> [])"
    by auto
  obtain ns rk where s: "iter podsGone k (names, r) = (ns, rk)" by (metis surj_pair)
  have ns: "ns = names @ replicate k oldProvisionerName"
    using iter_podsGone_names[of k names r] s by simp
  have ck: "client rk = client r" using iter_podsGone_frame[of k names r] s by simp
  obtain ns' r' where p: "podsGone (ns, rk) = ((False, None), (ns', r'))"
    using Suc.prems s by (metis lessI prod.collapse)
  from podsGone_notyet(1)[OF p] podsGone_cases(1)[OF p] obtain e items where
    ei: "history r' = history rk @ [ListedPods [requirementFor (ns @ [oldProvisionerName])] e items]"
        "(e, items) = fst (List_Pods (client rk) [requirementFor (ns @ [oldProvisionerName])] (cluster rk))"
        "okList e" "items \<noteq> []"
    by auto
  have built: "fst (NewRequirement appLabelKey In (ns @ [oldProvisionerName])) = None"
    using podsGone_notyet(2)[OF p] podsGone_cases(1)[OF p] by simp
  have nn: "ns @ [oldProvisionerName] = names @ replicate (Suc k) oldProvisionerName"
    using ns by (simp add: replicate_append_same)
  let ?ev = "ListedPods [requirementFor (names @ replicate (Suc k) oldProvisionerName)] e items"
  have pe: "pollEvent names (client r) k ?ev"
    unfolding pollEvent_def using ei(2) ck nn built by auto
  have h: "history (snd (iter podsGone (Suc k) (names, r))) = history r @ (evs @ [?ev])"
    using s p ei(1) evs(1) nn by (simp add: iter_Suc_back)
  show ?case
    apply (rule exI[of _ "evs @ [?ev]"])
    using h evs(2,3) pe ei(3,4) by (auto simp: nth_append less_Suc_eq)
qed


lemma same_matches:
  "Matches [requirementFor (names @ replicate (Suc i) v)] ls = Matches [requirementFor (names @ [v])] ls"
  by (auto simp: Matches_def RequirementMatches_def requirementFor_def split: option.splits)

subsection \<open>Runs of the drain wait\<close>

lemma waitForPods_run:
  assumes w: "waitForPods names r = (err, r')" and l: "\<not> deletedStaticProvisioner r"
  shows "\<exists>evs. history r' = history r @ evs \<and> client r' = client r \<and>
           pollRun names (client r) evs err (deletedStaticProvisioner r')"
proof -
  let ?st = "(names, r)"
  obtain e0 nk rk where eb: "ExponentialBackoff cleanupBackoff podsGone ?st = (e0, (nk, rk))"
    by (metis surj_pair)
  from ExponentialBackoff_attempts[of cleanupBackoff podsGone ?st] eb
  obtain k where k: "k \<le> 20" "1 \<le> k" "(nk, rk) = iter podsGone k ?st"
      "\<forall>j. Suc j < k \<longrightarrow> fst (podsGone (iter podsGone j ?st)) = (False, None)"
      "case e0 of
           None \<Rightarrow> 1 \<le> k \<and> fst (podsGone (iter podsGone (k - 1) ?st)) = (True, None)
         | Some e \<Rightarrow>
             (1 \<le> k \<and> snd (fst (podsGone (iter podsGone (k - 1) ?st))) = Some e) \<or>
             (e = ErrWaitTimeout \<and> (\<forall>j < k. fst (podsGone (iter podsGone j ?st)) = (False, None)))"
    by (auto simp: Steps_cleanupBackoff)
  have res: "err = e0" "r' = (if e0 \<noteq> None then rk else rk\<lparr>deletedStaticProvisioner := True\<rparr>)"
    using w eb by (auto simp: waitForPods_def split: if_splits)
  have fr: "client rk = client r" "deletedStaticProvisioner rk = deletedStaticProvisioner r"
    using iter_podsGone_frame[of k names r] k(3)[symmetric] by simp_all
  obtain m where m: "k = Suc m" using k(2) by (cases k) auto
  have "\<forall>i<m. fst (podsGone (iter podsGone i ?st)) = (False, None)"
    using k(4) m by simp
  from iter_podsGone_history[OF this]
  obtain evs where evs: "history (snd (iter podsGone m ?st)) = history r @ evs" "length evs = m"
     "\<forall>i<m. pollEvent names (client r) i (evs ! i) \<and>
              (\<exists>sel e items. evs ! i = ListedPods sel e items \<and> okList e \<and> items \<noteq> [])"
    by blast
  have pp: "pollPrefix names (client r) m evs"
    using evs(2,3) by (auto simp: pollPrefix_def)
  obtain nm rm where sm: "iter podsGone m ?st = (nm, rm)" by (metis surj_pair)
  have nm: "nm = names @ replicate m oldProvisionerName"
    using iter_podsGone_names[of m names r] sm by simp
  have cm: "client rm = client r" using iter_podsGone_frame[of m names r] sm by simp
  obtain d e where last: "podsGone (nm, rm) = ((d, e), (nk, rk))"
    using k(3) m sm by (metis iter_Suc_back prod.collapse)
  have nn: "nm @ [oldProvisionerName] = names @ replicate (Suc m) oldProvisionerName"
    using nm by (simp add: replicate_append_same)
  have hm: "history rm = history r @ evs" using evs(1) sm by simp
  note pc = podsGone_cases[OF last]
  show ?thesis
  proof (cases "fst (NewRequirement appLabelKey In nk) \<noteq> None")
    case True
    with pc(4) have a: "rk = rm" "\<not> d" "e = fst (NewRequirement appLabelKey In nk)" by auto
    have "e0 = e"
      using k(5) m sm last True a by (cases e0) auto
    then have "e0 \<noteq> None" "r' = rk" using res True a by auto
    have "pollRun names (client r) evs e False"
      using SelectorFailed[OF pp, of e] m k(1) a(3) True pc(1) nn by simp
    then show ?thesis
      using hm a(1) \<open>r' = rk\<close> \<open>e0 = e\<close> res(1) fr l by auto
  next
    case False
    with pc(4) obtain le items where li:
       "history rk = history rm @ [ListedPods [requirementFor nk] le items]"
       "(le, items) = fst (List_Pods (client rm) [requirementFor nk] (cluster rm))"
       "if okList le then d = (items = []) \<and> e = None else \<not> d \<and> e = le"
      by auto
    have nk: "nk = names @ replicate (Suc m) oldProvisionerName" using pc(1) nn by simp
    have pe: "pollEvent names (client r) m (ListedPods [requirementFor nk] le items)"
      unfolding pollEvent_def using li(2) cm nk False by auto
    have hk: "history rk = history r @ (evs @ [ListedPods [requirementFor nk] le items])"
      using li(1) hm by simp
    show ?thesis
    proof (cases "okList le")
      case bad: False
      then have "e = le" "\<not> d" using li(3) by auto
      have "le \<noteq> None" using bad by (auto simp: okList_def)
      have "e0 = le"
        using k(5) m sm last \<open>e = le\<close> \<open>le \<noteq> None\<close> by (cases e0) auto
      then have "r' = rk" using res \<open>le \<noteq> None\<close> by auto
      have "pollRun names (client r) (evs @ [ListedPods [requirementFor nk] le items]) le False"
        using PodListFailed[OF pp _ pe bad] m k(1) by simp
      then show ?thesis
        using hk \<open>r' = rk\<close> \<open>e0 = le\<close> res(1) fr l by auto
    next
      case ok: True
      then have de: "d = (items = [])" "e = None" using li(3) by auto
      show ?thesis
      proof (cases "items = []")
        case True
        then have "fst (podsGone (iter podsGone (k - 1) ?st)) = (True, None)"
          using m sm last de by simp
        then have "e0 = None"
          using k(5) m by (cases e0) auto
        then have r': "r' = rk\<lparr>deletedStaticProvisioner := True\<rparr>" using res by simp
        have "pollRun names (client r) (evs @ [ListedPods [requirementFor nk] le []]) None True"
          using Drained[OF pp _ _ ok] pe True m k(1) by simp
        then show ?thesis
          using hk r' \<open>e0 = None\<close> res(1) fr True by auto
      next
        case ne: False
        then have lastres: "fst (podsGone (iter podsGone (k - 1) ?st)) = (False, None)"
          using m sm last de by simp
        then have "e0 = Some ErrWaitTimeout"
          using k(5) m by (cases e0) auto
        then have r': "r' = rk" using res by simp
        have "notYet (ListedPods [requirementFor nk] le items)"
          using ok ne by simp
        then have "pollPrefix names (client r) k (evs @ [ListedPods [requirementFor nk] le items])"
          using pp pe m by (auto simp: pollPrefix_def nth_append less_Suc_eq)
        from TimedOut[OF this k(2) k(1)] show ?thesis
          using hk r' \<open>e0 = Some ErrWaitTimeout\<close> res(1) fr l by auto
      qed
    qed
  qed
qed

lemma waitForPods_sets_latch:
  assumes l: "\<not> deletedStaticProvisioner r" and w: "waitForPods names r = (err, r')"
    and s: "deletedStaticProvisioner r'"
  shows "err = None \<and> fst (ExponentialBackoff cleanupBackoff podsGone (names, r)) = None"
proof -
  from waitForPods_run[OF w l] obtain evs where
    "pollRun names (client r) evs err (deletedStaticProvisioner r')" by blast
  then have "err = None" using s by (cases rule: pollRun.cases) auto
  then show ?thesis
    using w by (auto simp: waitForPods_def split: prod.splits if_splits)
qed

lemma podSelectors_append: "podSelectors (xs @ ys) = podSelectors xs @ podSelectors ys"
  by (simp add: podSelectors_def)

lemma podSelectors_simps:
  "podSelectors [] = []"
  "podSelectors (ListedDaemonSets a b c # evs) = podSelectors evs"
  "podSelectors (GotDaemonSet a n e d # evs) = podSelectors evs"
  "podSelectors (DeletedDaemonSet d e # evs) = podSelectors evs"
  "podSelectors (ListedPods sel e ps # evs) = sel # podSelectors evs"
  by (simp_all add: podSelectors_def)

lemma pollPrefix_listing:
  "pollPrefix names c n evs \<Longrightarrow> list_all isPodListing evs \<and> list_all notYet evs \<and>
     podSelectors evs = map (\<lambda>i. [requirementFor (names @ replicate (Suc i) oldProvisionerName)]) [0..<n]"
proof -
  assume p: "pollPrefix names c n evs"
  then have len: "length evs = n" by (simp add: pollPrefix_def)
  have each: "\<And>i. i < n \<Longrightarrow> isPodListing (evs ! i) \<and> notYet (evs ! i) \<and>
      selectorOf (evs ! i) = [requirementFor (names @ replicate (Suc i) oldProvisionerName)]"
    using p by (auto simp: pollPrefix_def pollEvent_def)
  have a: "list_all isPodListing evs" "list_all notYet evs"
    using each len by (auto simp: list_all_length)
  then have "filter isPodListing evs = evs" by (simp add: list_all_iff)
  then have "podSelectors evs = map selectorOf evs" by (simp add: podSelectors_def)
  also have "\<dots> = map (\<lambda>i. [requirementFor (names @ replicate (Suc i) oldProvisionerName)]) [0..<n]"
    using each len by (auto intro!: nth_equalityI)
  finally show ?thesis using a by simp
qed

lemma pollRun_facts:
  assumes "pollRun names c polls err latch"
  shows "length polls \<le> 20"
    and "list_all isPodListing polls"
    and "podSelectors polls =
           map (\<lambda>i. [requirementFor (names @ replicate (Suc i) oldProvisionerName)]) [0..<length polls]"
    and "latch = (err = None)"
    and "latch \<Longrightarrow> polls \<noteq> [] \<and> (\<exists>sel e. last polls = ListedPods sel e [] \<and> okList e)"
    and "list_all notYet (butlast polls)"
    and "polls = [] \<Longrightarrow> err \<noteq> None \<and>
           err = fst (NewRequirement appLabelKey In (names @ [oldProvisionerName]))"
    and "\<forall>i<length polls. pollEvent names c i (polls ! i)"
  using assms
proof (induction rule: pollRun.induct)
  case (SelectorFailed names c n evs err)
  note f = pollPrefix_listing[OF SelectorFailed(1)]
  have len: "length evs = n" using SelectorFailed(1) by (simp add: pollPrefix_def)
  { case 1 show ?case using len SelectorFailed by simp }
  { case 2 show ?case using f by simp }
  { case 3 show ?case using f len by simp }
  { case 4 show ?case using SelectorFailed by simp }
  { case 5 then show ?case by simp }
  { case 6 show ?case using f by (auto simp: list_all_iff dest: in_set_butlastD) }
  { case 7 then show ?case using len SelectorFailed by simp }
  { case 8 show ?case using SelectorFailed(1) by (simp add: pollPrefix_def) }
next
  case (PodListFailed names c n evs sel err items)
  note f = pollPrefix_listing[OF PodListFailed(1)]
  have len: "length evs = n" using PodListFailed(1) by (simp add: pollPrefix_def)
  have sel: "sel = [requirementFor (names @ replicate (Suc n) oldProvisionerName)]"
    using PodListFailed(3) by (auto simp: pollEvent_def)
  have ne: "err \<noteq> None" using PodListFailed(4) by (auto simp: okList_def)
  { case 1 show ?case using len PodListFailed by simp }
  { case 2 show ?case using f by simp }
  { case 3 show ?case using f len sel by (simp add: podSelectors_append) (simp add: podSelectors_def) }
  { case 4 show ?case using ne by simp }
  { case 5 then show ?case by simp }
  { case 6 show ?case using f by simp }
  { case 7 then show ?case by simp }
  { case 8 show ?case using PodListFailed(1,3) len
      by (auto simp: pollPrefix_def nth_append less_Suc_eq) }
next
  case (TimedOut names c n evs)
  note f = pollPrefix_listing[OF TimedOut(1)]
  have len: "length evs = n" using TimedOut(1) by (simp add: pollPrefix_def)
  { case 1 show ?case using len TimedOut by simp }
  { case 2 show ?case using f by simp }
  { case 3 show ?case using f len by simp }
  { case 4 show ?case by simp }
  { case 5 then show ?case by simp }
  { case 6 show ?case using f by (auto simp: list_all_iff dest: in_set_butlastD) }
  { case 7 then show ?case using len TimedOut by simp }
  { case 8 show ?case using TimedOut(1) by (simp add: pollPrefix_def) }
next
  case (Drained names c n evs sel e)
  note f = pollPrefix_listing[OF Drained(1)]
  have len: "length evs = n" using Drained(1) by (simp add: pollPrefix_def)
  have sel: "sel = [requirementFor (names @ replicate (Suc n) oldProvisionerName)]"
    using Drained(3) by (auto simp: pollEvent_def)
  { case 1 show ?case using len Drained by simp }
  { case 2 show ?case using f by simp }
  { case 3 show ?case using f len sel by (simp add: podSelectors_append) (simp add: podSelectors_def) }
  { case 4 show ?case by simp }
  { case 5 show ?case using Drained(4) by simp }
  { case 6 show ?case using f by simp }
  { case 7 then show ?case by simp }
  { case 8 show ?case using Drained(1,3) len
      by (auto simp: pollPrefix_def nth_append less_Suc_eq) }
qed

lemma polls_only_listings:
  assumes "pollRun names c polls err latch"
  shows "DeletedDaemonSet ds e \<notin> set polls" "GotDaemonSet a n g d \<notin> set polls"
    "polls \<noteq> [] \<Longrightarrow> isPodListing (last polls)"
proof -
  from pollRun_facts(2)[OF assms] have a: "\<forall>x\<in>set polls. isPodListing x"
    by (simp add: list_all_iff)
  then show "DeletedDaemonSet ds e \<notin> set polls" "GotDaemonSet a n g d \<notin> set polls" by force+
  show "polls \<noteq> [] \<Longrightarrow> isPodListing (last polls)" using a by simp
qed

lemma listing_not_deletion: "isPodListing ev \<Longrightarrow> ev \<noteq> DeletedDaemonSet ds e"
  by (cases ev) auto

lemma pollRun_exhausted:
  assumes "pollRun names c polls err latch" "polls \<noteq> []" "list_all notYet polls"
  shows "err = Some ErrWaitTimeout"
  using assms
proof (cases rule: pollRun.cases)
  case (SelectorFailed n)
  then have nl: "n = length polls" and pp: "pollPrefix names c n polls"
    by (auto simp: pollPrefix_def)
  have "n \<noteq> 0" using nl assms(2) by simp
  then obtain m where m: "n = Suc m" by (cases n) auto
  have "pollEvent names c m (polls ! m)" using pp m by (simp add: pollPrefix_def)
  then have "fst (NewRequirement appLabelKey In (names @ replicate (Suc m) oldProvisionerName)) = None"
    by (auto simp: pollEvent_def)
  then have "fst (NewRequirement appLabelKey In (names @ replicate (Suc n) oldProvisionerName)) = None"
    unfolding m by (rule NewRequirement_replicate)
  then show ?thesis using SelectorFailed by simp
next
  case (PodListFailed n evs sel items)
  then have "notYet (ListedPods sel err items)" using assms(3) by simp
  then show ?thesis using PodListFailed by simp
next
  case (Drained n evs sel e)
  then have "notYet (ListedPods sel e [])" using assms(3) by simp
  then show ?thesis by simp
qed simp




subsection \<open>Lists of delete events\<close>

lemma deletions_props:
  "list_all isDeletion (deletions dss resps)"
  "podSelectors (deletions dss resps) = []"
  "list_all (\<lambda>ev. \<not> isWrite ev) (deletions dss resps)"
  "length (deletions dss resps) = min (length dss) (length resps)"
  by (auto simp: deletions_def podSelectors_def list_all_iff filter_empty_conv)

lemma in_deletions:
  "DeletedDaemonSet ds e \<in> set (deletions dss resps) \<longleftrightarrow> (ds, e) \<in> set (zip dss resps)"
  by (auto simp: deletions_def)

lemma in_deletions_target:
  "DeletedDaemonSet ds e \<in> set (deletions dss resps) \<Longrightarrow> ds \<in> set dss \<and> e \<in> set resps"
  by (auto simp: in_deletions dest: set_zip_leftD set_zip_rightD)

lemma deletions_complete:
  "length resps = length dss \<Longrightarrow> ds \<in> set dss \<Longrightarrow> \<exists>e. DeletedDaemonSet ds e \<in> set (deletions dss resps)"
  by (metis in_deletions in_set_impl_in_set_zip1)

lemma deletions_other:
  "GotDaemonSet a b c d \<notin> set (deletions dss resps)"
  "ListedPods s e ps \<notin> set (deletions dss resps)"
  "ListedDaemonSets a e ds \<notin> set (deletions dss resps)"
  by (auto simp: deletions_def)

lemma deletions_butlast_ok:
  assumes "resps \<noteq> []" "length resps \<le> length dss" "list_all okDelete (butlast resps)"
    "DeletedDaemonSet ds e \<in> set (butlast (deletions dss resps))"
  shows "okDelete e"
proof -
  let ?xs = "deletions dss resps"
  have len: "length ?xs = length resps" using assms(2) by (simp add: deletions_def)
  from assms(4) obtain i where i: "i < length (butlast ?xs)" "butlast ?xs ! i = DeletedDaemonSet ds e"
    by (auto simp: in_set_conv_nth)
  then have i': "i < length resps - 1" using len by simp
  have "butlast ?xs ! i = ?xs ! i" using i(1) by (simp add: nth_butlast)
  also have "\<dots> = DeletedDaemonSet (dss ! i) (resps ! i)"
    using i' assms(2) by (simp add: deletions_def)
  finally have "e = resps ! i" using i(2) by simp
  also have "\<dots> = butlast resps ! i" using i' by (simp add: nth_butlast)
  finally have "e \<in> set (butlast resps)" using i' by simp
  then show ?thesis using assms(3) by (simp add: list_all_iff)
qed

lemma deletions_last:
  assumes "resps \<noteq> []" "length resps \<le> length dss"
  shows "deletions dss resps \<noteq> [] \<and>
         last (deletions dss resps) = DeletedDaemonSet (dss ! (length resps - 1)) (last resps)"
proof -
  let ?xs = "deletions dss resps"
  have len: "length ?xs = length resps" using assms(2) by (simp add: deletions_def)
  then have ne: "?xs \<noteq> []" using assms(1) by auto
  have "last ?xs = ?xs ! (length resps - 1)" using ne len by (simp add: last_conv_nth)
  also have "\<dots> = DeletedDaemonSet (dss ! (length resps - 1)) (resps ! (length resps - 1))"
  proof -
    have "length resps - 1 < length resps" "length resps - 1 < length dss"
      using assms by (cases resps; simp)+
    then show ?thesis by (simp add: deletions_def)
  qed
  finally show ?thesis using ne assms(1) by (simp add: last_conv_nth)
qed

lemma deletions_all_ok:
  "list_all okDelete resps \<Longrightarrow> DeletedDaemonSet ds e \<in> set (deletions dss resps) \<Longrightarrow> okDelete e"
  by (auto simp: list_all_iff dest: in_deletions_target)

lemma filter_listings_deletions: "filter isPodListing (deletions dss resps) = []"
  by (auto simp: deletions_def filter_empty_conv)

lemma not_okDelete_Some: "\<not> okDelete e \<Longrightarrow> e \<noteq> None"
  by (auto simp: okDelete_def)

subsection \<open>Runs of the cleanup\<close>

text \<open>
  Every call of \<open>cleanupOldDaemonsets\<close> with the latch unset adds a run to the history.
\<close>

lemma cleanup_run:
  assumes l: "\<not> deletedStaticProvisioner r" and c: "cleanupOldDaemonsets ns r = (err, r')"
  shows "\<exists>evs. history r' = history r @ evs \<and> client r' = client r \<and>
           cleanupRun ns (client r) evs err (deletedStaticProvisioner r') \<and>
           hd evs = ListedDaemonSets ns (fst (fst (List_DaemonSets (client r) ns (cluster r))))
                      (snd (fst (List_DaemonSets (client r) ns (cluster r))))"
proof -
  obtain lerr items r1 where cl: "clientListDaemonSets ns r = ((lerr, items), r1)"
    by (metis surj_pair)
  have ans: "fst (fst (List_DaemonSets (client r) ns (cluster r))) = lerr"
     "snd (fst (List_DaemonSets (client r) ns (cluster r))) = items"
    using clientListDaemonSets_eq[OF cl] by (metis fst_conv, metis snd_conv)
  have l1: "client r1 = client r" "deletedStaticProvisioner r1 = deletedStaticProvisioner r"
     "history r1 = history r @ [ListedDaemonSets ns lerr items]"
    using clientListDaemonSets_eq[OF cl] by simp_all
  have "\<exists>evs. history r' = history r @ evs \<and> client r' = client r \<and>
           cleanupRun ns (client r) evs err (deletedStaticProvisioner r') \<and>
           hd evs = ListedDaemonSets ns lerr items"
  proof (cases "lerr \<noteq> None")
    case True
    then have "err = lerr" "r' = r1" using c l cl by (auto simp: cleanupOldDaemonsets_def)
    then show ?thesis using l1 l ListFailed[OF True, of ns "client r" items] by auto
  next
    case False
    then have lerr: "lerr = None" by simp
    obtain derr names r2 where d: "deleteOldDaemons items [] r1 = ((derr, names), r2)"
      by (metis surj_pair)
    from deleteOldDaemons_shape[OF d] obtain resps where
      d1: "client r2 = client r1" "deletedStaticProvisioner r2 = deletedStaticProvisioner r1"
      and d2: "length resps \<le> length (oldDaemons items)"
        "history r2 = history r1 @ deletions (oldDaemons items) resps"
        "derr = None \<longrightarrow> length resps = length (oldDaemons items) \<and> list_all okDelete resps \<and>
           names = [] @ map (\<lambda>ds. the (Labels ds appLabelKey)) (oldDaemons items)"
        "derr \<noteq> None \<longrightarrow> resps \<noteq> [] \<and> last resps = derr \<and> \<not> okDelete derr \<and>
           list_all okDelete (butlast resps)"
      unfolding deletions_def by blast
    show ?thesis
    proof (cases "derr \<noteq> None")
      case True
      then have "err = derr" "r' = r2" using c l cl lerr d by (auto simp: cleanupOldDaemonsets_def)
      moreover have "cleanupRun ns (client r)
          (ListedDaemonSets ns None items # deletions (oldDaemons items) resps) (last resps) False"
        using DeleteFailed[OF d2(1)] d2(4) True by blast
      ultimately show ?thesis using l1 l d1 d2(2,4) True lerr by auto
    next
      case False
      then have derr: "derr = None" by simp
      with d2(3) have r3: "length resps = length (oldDaemons items)" "list_all okDelete resps"
        and names: "names = oldAppNames items" by (auto simp: oldAppNames_eq)
      obtain gerr p r3 where g: "clientGetDaemonSet ns oldProvisionerName r2 = ((gerr, p), r3)"
        by (metis surj_pair)
      note g1 = clientGetDaemonSet_eq[OF g]
      have h3: "history r3 = history r @ (ListedDaemonSets ns None items #
          deletions (oldDaemons items) resps @ [GotDaemonSet ns oldProvisionerName gerr p])"
        using g1 d2(2) l1 lerr by simp
      have f3: "client r3 = client r" "\<not> deletedStaticProvisioner r3"
        using g1 d1 l1 l by auto
      show ?thesis
      proof (cases "gerr = None")
        case found: True
        obtain perr r4 where pd: "clientDelete p r3 = (perr, r4)" by (metis surj_pair)
        note p1 = clientDelete_eq[OF pd]
        have h4: "history r4 = history r @ (ListedDaemonSets ns None items #
            deletions (oldDaemons items) resps @
            [GotDaemonSet ns oldProvisionerName None p, DeletedDaemonSet p perr])"
          using p1 h3 found by simp
        have f4: "client r4 = client r" "\<not> deletedStaticProvisioner r4"
          using p1 f3 by auto
        show ?thesis
        proof (cases "okDelete perr")
          case False
          then have "err = perr" "r' = r4"
            using c l cl lerr d derr g found pd
            by (auto simp: cleanupOldDaemonsets_def okDelete_def)
          then show ?thesis
            using h4 f4 lerr ProvisionerDeleteFailed[OF r3 False, of ns "client r" p] by auto
        next
          case True
          then have w: "waitForPods names r4 = (err, r')"
            using c l cl lerr d derr g found pd
            by (auto simp: cleanupOldDaemonsets_def okDelete_def)
          from waitForPods_run[OF w f4(2)] obtain polls where
            "history r' = history r4 @ polls" "client r' = client r4"
            "pollRun names (client r4) polls err (deletedStaticProvisioner r')" by blast
          then show ?thesis
            using h4 f4 lerr names WaitedFound[OF r3 True, of "client r" polls err _ ns p] by auto
        qed
      next
        case absent: False
        show ?thesis
        proof (cases "okDelete gerr")
          case False
          then have "err = gerr" "r' = r3"
            using c l cl lerr d derr g absent
            by (auto simp: cleanupOldDaemonsets_def okDelete_def)
          then show ?thesis
            using h3 f3 lerr GetFailed[OF r3 False, of ns "client r" p] by auto
        next
          case True
          then have w: "waitForPods names r3 = (err, r')"
            using c l cl lerr d derr g absent
            by (auto simp: cleanupOldDaemonsets_def okDelete_def)
          from waitForPods_run[OF w f3(2)] obtain polls where
            "history r' = history r3 @ polls" "client r' = client r3"
            "pollRun names (client r3) polls err (deletedStaticProvisioner r')" by blast
          then show ?thesis
            using h3 f3 lerr names WaitedAbsent[OF r3 absent True, of "client r" polls err _ ns p] by auto
        qed
      qed
    qed
  qed
  then show ?thesis using ans by simp
qed

lemma cleanup_sets_latch:
  assumes l: "\<not> deletedStaticProvisioner r" and c: "cleanupOldDaemonsets ns r = (err, r')"
    and s: "deletedStaticProvisioner r'"
  shows "\<exists>names r0. \<not> deletedStaticProvisioner r0 \<and> waitForPods names r0 = (err, r')"
proof -
  obtain lerr items r1 where cl: "clientListDaemonSets ns r = ((lerr, items), r1)"
    by (metis surj_pair)
  have l1: "\<not> deletedStaticProvisioner r1"
    using clientListDaemonSets_eq[OF cl] l by simp
  obtain derr names r2 where d: "deleteOldDaemons items [] r1 = ((derr, names), r2)"
    by (metis surj_pair)
  have l2: "\<not> deletedStaticProvisioner r2"
    using deleteOldDaemons_shape[OF d] l1 by simp
  obtain gerr p r3 where g: "clientGetDaemonSet ns oldProvisionerName r2 = ((gerr, p), r3)"
    by (metis surj_pair)
  have l3: "\<not> deletedStaticProvisioner r3"
    using clientGetDaemonSet_eq[OF g] l2 by simp
  obtain perr r4 where pd: "clientDelete p r3 = (perr, r4)" by (metis surj_pair)
  have l4: "\<not> deletedStaticProvisioner r4"
    using clientDelete_eq[OF pd] l3 by simp
  have "(err, r') = (lerr, r1) \<or> (err, r') = (derr, r2) \<or> (err, r') = (gerr, r3) \<or>
        (err, r') = (perr, r4) \<or> (err, r') = waitForPods names r4 \<or>
        (err, r') = waitForPods names r3"
    using c l cl d g pd unfolding cleanupOldDaemonsets_def
    by (simp split: if_splits)
  then consider "r' = r1" | "r' = r2" | "r' = r3" | "r' = r4"
    | "waitForPods names r4 = (err, r')" | "waitForPods names r3 = (err, r')"
    by (metis prod.inject)
  then show ?thesis
  proof cases
    case 1 then show ?thesis using s l1 by simp
  next
    case 2 then show ?thesis using s l2 by simp
  next
    case 3 then show ?thesis using s l3 by simp
  next
    case 4 then show ?thesis using s l4 by simp
  next
    case 5 then show ?thesis using l4 by blast
  next
    case 6 then show ?thesis using l3 by blast
  qed
qed

lemma cleanup_latched: "deletedStaticProvisioner r \<Longrightarrow> cleanupOldDaemonsets ns r = (None, r)"
  by (simp add: cleanupOldDaemonsets_def)

lemma cleanup_sequence_latched:
  "deletedStaticProvisioner r \<Longrightarrow> foldl (\<lambda>s n. snd (cleanupOldDaemonsets n s)) r nss = r"
  by (induction nss) (simp_all add: cleanup_latched)

lemma run_head:
  "cleanupRun ns c evs err latch \<Longrightarrow> \<exists>lerr items rest. evs = ListedDaemonSets ns lerr items # rest"
  by (cases rule: cleanupRun.cases) auto

lemma cleanup_events:
  assumes l: "\<not> deletedStaticProvisioner r" and c: "cleanupOldDaemonsets ns r = (err, r')"
    and a: "fst (List_DaemonSets (client r) ns (cluster r)) = (lerr, items)"
  shows "cleanupRun ns (client r) (newEvents r r') err (deletedStaticProvisioner r')"
    and "hd (newEvents r r') = ListedDaemonSets ns lerr items"
    and "history r' = history r @ newEvents r r'"
    and "client r' = client r"
proof -
  from cleanup_run[OF l c] a obtain evs where
    e: "history r' = history r @ evs" "client r' = client r"
       "cleanupRun ns (client r) evs err (deletedStaticProvisioner r')"
       "hd evs = ListedDaemonSets ns lerr items"
    by auto
  have "newEvents r r' = evs" using e(1) by (rule newEvents_append)
  then show "cleanupRun ns (client r) (newEvents r r') err (deletedStaticProvisioner r')"
    and "hd (newEvents r r') = ListedDaemonSets ns lerr items"
    and "history r' = history r @ newEvents r r'"
    and "client r' = client r"
    using e by simp_all
qed

lemma cleanup_restarts:
  assumes "\<not> deletedStaticProvisioner r"
  shows "\<exists>lerr items rest.
           newEvents r (snd (cleanupOldDaemonsets ns r)) = ListedDaemonSets ns lerr items # rest"
proof -
  obtain err r' where c: "cleanupOldDaemonsets ns r = (err, r')" by (metis surj_pair)
  obtain lerr items where a: "fst (List_DaemonSets (client r) ns (cluster r)) = (lerr, items)"
    by (metis surj_pair)
  from run_head[OF cleanup_events(1)[OF assms c a]] c show ?thesis by simp
qed

subsection \<open>What holds of every run\<close>

lemma run_selectors:
  assumes "cleanupRun ns c evs err latch" "hd evs = ListedDaemonSets ns lerr items"
  shows "length (podSelectors evs) \<le> 20 \<and>
         podSelectors evs =
           map (\<lambda>i. [requirementFor (oldAppNames items @ replicate (Suc i) oldProvisionerName)])
             [0..<length (podSelectors evs)]"
  using assms
proof (cases rule: cleanupRun.cases)
  case (WaitedFound resps items' derr polls p)
  then have pr: "pollRun (oldAppNames items') c polls err latch" by simp
  note pf = pollRun_facts[OF pr]
  have ps: "podSelectors evs = podSelectors polls"
    using WaitedFound(1) by (simp add: podSelectors_simps podSelectors_append deletions_props)
  have "items' = items" using WaitedFound(1) assms(2) by simp
  then show ?thesis
    using pf(1,2,3) ps by (simp add: podSelectors_def list_all_iff)
next
  case (WaitedAbsent resps items' gerr polls p)
  then have pr: "pollRun (oldAppNames items') c polls err latch" by simp
  note pf = pollRun_facts[OF pr]
  have ps: "podSelectors evs = podSelectors polls"
    using WaitedAbsent(1) by (simp add: podSelectors_simps podSelectors_append deletions_props)
  have "items' = items" using WaitedAbsent(1) assms(2) by simp
  then show ?thesis
    using pf(1,2,3) ps by (simp add: podSelectors_def list_all_iff)
qed (simp_all add: podSelectors_simps podSelectors_append deletions_props)

lemma run_latch:
  assumes "cleanupRun ns c evs err latch"
  shows "latch = (err = None)"
    and "latch \<Longrightarrow> \<exists>sel e. last evs = ListedPods sel e [] \<and> okList e"
  using assms
proof (atomize(full), cases rule: cleanupRun.cases)
  case (WaitedFound resps items derr polls p)
  then have pr: "pollRun (oldAppNames items) c polls err latch" by simp
  note pf = pollRun_facts[OF pr]
  show "latch = (err = None) \<and> (latch \<longrightarrow> (\<exists>sel e. last evs = ListedPods sel e [] \<and> okList e))"
    using pf(4,5) WaitedFound(1) by auto
next
  case (WaitedAbsent resps items gerr polls p)
  then have pr: "pollRun (oldAppNames items) c polls err latch" by simp
  note pf = pollRun_facts[OF pr]
  show "latch = (err = None) \<and> (latch \<longrightarrow> (\<exists>sel e. last evs = ListedPods sel e [] \<and> okList e))"
    using pf(4,5) WaitedAbsent(1) by auto
qed (auto dest: not_okDelete_Some)

lemma run_deleted_only_old:
  assumes "cleanupRun ns c evs err latch" "hd evs = ListedDaemonSets ns lerr items"
    "DeletedDaemonSet ds e \<in> set evs"
  shows "(ds \<in> set items \<and> isOldDaemon ds) \<or> GotDaemonSet ns oldProvisionerName None ds \<in> set evs"
proof -
  have old: "\<And>resps. DeletedDaemonSet ds e \<in> set (deletions (oldDaemons items) resps) \<Longrightarrow>
      ds \<in> set items \<and> isOldDaemon ds"
    by (auto dest!: in_deletions_target simp: oldDaemons_def)
  have polls: "\<And>names polls err latch. pollRun names c polls err latch \<Longrightarrow>
      DeletedDaemonSet ds e \<notin> set polls"
  proof -
    fix names polls err latch assume "pollRun names (c::'a Client) polls err latch"
    from pollRun_facts(2)[OF this] have "\<forall>x\<in>set polls. isPodListing x"
      by (simp add: list_all_iff)
    then show "DeletedDaemonSet ds e \<notin> set polls" by force
  qed
  from assms show ?thesis
    by (cases rule: cleanupRun.cases) (auto dest: old polls)
qed

lemma run_no_writes:
  assumes "cleanupRun ns c evs err latch"
  shows "list_all (\<lambda>ev. \<not> isWrite ev) evs"
proof -
  have polls: "\<And>names polls err latch. pollRun names c polls err latch \<Longrightarrow>
      list_all (\<lambda>ev. \<not> isWrite ev) polls"
  proof -
    fix names polls err latch assume "pollRun names (c::'a Client) polls err latch"
    from pollRun_facts(2)[OF this] show "list_all (\<lambda>ev. \<not> isWrite ev) polls"
      unfolding list_all_iff by (metis isPodListing.elims(2) isWrite.simps(6))
  qed
  from assms show ?thesis
    by (cases rule: cleanupRun.cases) (auto simp: deletions_props dest: polls)
qed

lemma run_deletion_count:
  assumes "cleanupRun ns c evs err latch" "hd evs = ListedDaemonSets ns lerr items"
  shows "length (filter isDeletion evs) \<le> length (oldDaemons items) + 1"
proof -
  have dl: "\<And>dss resps. length (filter isDeletion (deletions dss resps)) \<le> length dss"
    by (metis deletions_props(4) length_filter_le min.cobounded1 order_trans)
  have polls: "\<And>names polls err latch. pollRun names c polls err latch \<Longrightarrow>
      filter isDeletion polls = []"
  proof -
    fix names polls err latch assume "pollRun names (c::'a Client) polls err latch"
    from pollRun_facts(2)[OF this] show "filter isDeletion polls = []"
      unfolding list_all_iff filter_empty_conv by (metis isDeletion.simps(6) isPodListing.elims(2))
  qed
  from assms show ?thesis
    by (cases rule: cleanupRun.cases) (auto simp: polls intro: le_SucI dl)
qed

lemma run_failed_delete_is_last:
  assumes "cleanupRun ns c evs err latch" "DeletedDaemonSet ds e \<in> set (butlast evs)"
  shows "okDelete e"
  using assms
proof (cases rule: cleanupRun.cases)
  case (DeleteFailed resps items)
  then have a: "resps \<noteq> []" "length resps \<le> length (oldDaemons items)"
      "list_all okDelete (butlast resps)"
    and ev: "evs = ListedDaemonSets ns None items # deletions (oldDaemons items) resps"
    by simp_all
  have "deletions (oldDaemons items) resps \<noteq> []"
    using deletions_last[OF a(1,2)] by blast
  then have "DeletedDaemonSet ds e \<in> set (butlast (deletions (oldDaemons items) resps))"
    using assms(2) ev by simp
  from deletions_butlast_ok[OF a this] show ?thesis .
next
  case (GetFailed resps items p)
  then have "DeletedDaemonSet ds e \<in> set (deletions (oldDaemons items) resps)"
    using assms(2) by (simp add: butlast_append)
  then show ?thesis using GetFailed deletions_all_ok by blast
next
  case (ProvisionerDeleteFailed resps items p)
  then have "DeletedDaemonSet ds e \<in> set (deletions (oldDaemons items) resps)"
    using assms(2) by (simp add: butlast_append)
  then show ?thesis using ProvisionerDeleteFailed deletions_all_ok by blast
next
  case (WaitedFound resps items derr polls p)
  then have pr: "pollRun (oldAppNames items) c polls err latch" by simp
  have "DeletedDaemonSet ds e \<in> set evs" using assms(2) by (rule in_set_butlastD)
  then have "DeletedDaemonSet ds e \<in> set (deletions (oldDaemons items) resps) \<or> e = derr"
    using WaitedFound(1) polls_only_listings(1)[OF pr] by auto
  then show ?thesis using WaitedFound deletions_all_ok by blast
next
  case (WaitedAbsent resps items gerr polls p)
  then have pr: "pollRun (oldAppNames items) c polls err latch" by simp
  have "DeletedDaemonSet ds e \<in> set evs" using assms(2) by (rule in_set_butlastD)
  then have "DeletedDaemonSet ds e \<in> set (deletions (oldDaemons items) resps)"
    using WaitedAbsent(1) polls_only_listings(1)[OF pr] by auto
  then show ?thesis using WaitedAbsent deletions_all_ok by blast
qed simp

lemma run_last_delete:
  assumes "cleanupRun ns c evs err latch" "hd evs = ListedDaemonSets ns lerr items"
    "last evs = DeletedDaemonSet ds e"
  shows "\<not> okDelete e \<Longrightarrow> err = e \<and> \<not> latch"
    and "okDelete e \<Longrightarrow> err \<noteq> None \<and>
           err = fst (NewRequirement appLabelKey In (oldAppNames items @ [oldProvisionerName]))"
  using assms
proof (atomize(full), cases rule: cleanupRun.cases)
  case (DeleteFailed resps items')
  then have a: "resps \<noteq> []" "length resps \<le> length (oldDaemons items')" by simp_all
  from deletions_last[OF a] DeleteFailed(1) assms(3)
  have "e = last resps" by simp
  then show "(\<not> okDelete e \<longrightarrow> err = e \<and> \<not> latch) \<and> (okDelete e \<longrightarrow> err \<noteq> None \<and>
           err = fst (NewRequirement appLabelKey In (oldAppNames items @ [oldProvisionerName])))"
    using DeleteFailed by simp
next
  case (WaitedFound resps items' derr polls p)
  then have pr: "pollRun (oldAppNames items') c polls err latch" and ok: "okDelete derr" by simp_all
  have it: "items' = items" using WaitedFound(1) assms(2) by simp
  have "polls = []"
  proof (rule ccontr)
    assume "polls \<noteq> []"
    then have "last evs = last polls" using WaitedFound(1) by simp
    then show False
      using polls_only_listings(3)[OF pr \<open>polls \<noteq> []\<close>] assms(3) listing_not_deletion
      by metis
  qed
  then have "e = derr" using WaitedFound(1) assms(3) by simp
  then show "(\<not> okDelete e \<longrightarrow> err = e \<and> \<not> latch) \<and> (okDelete e \<longrightarrow> err \<noteq> None \<and>
           err = fst (NewRequirement appLabelKey In (oldAppNames items @ [oldProvisionerName])))"
    using pollRun_facts(7)[OF pr \<open>polls = []\<close>] ok it by auto
next
  case (WaitedAbsent resps items' gerr polls p)
  then have pr: "pollRun (oldAppNames items') c polls err latch" by simp
  have "polls \<noteq> []" using WaitedAbsent(1) assms(3) by auto
  then have "last evs = last polls" using WaitedAbsent(1) by simp
  then have False
    using polls_only_listings(3)[OF pr \<open>polls \<noteq> []\<close>] assms(3) listing_not_deletion
    by metis
  then show "(\<not> okDelete e \<longrightarrow> err = e \<and> \<not> latch) \<and> (okDelete e \<longrightarrow> err \<noteq> None \<and>
           err = fst (NewRequirement appLabelKey In (oldAppNames items @ [oldProvisionerName])))" ..
qed auto

lemma run_selected_iff:
  assumes "cleanupRun ns c evs err latch" "hd evs = ListedDaemonSets ns lerr items"
    "podSelectors evs \<noteq> []"
  shows "(\<exists>e. DeletedDaemonSet ds e \<in> set evs) \<longleftrightarrow>
         (ds \<in> set items \<and> isOldDaemon ds) \<or> GotDaemonSet ns oldProvisionerName None ds \<in> set evs"
proof
  assume "\<exists>e. DeletedDaemonSet ds e \<in> set evs"
  then show "(ds \<in> set items \<and> isOldDaemon ds) \<or> GotDaemonSet ns oldProvisionerName None ds \<in> set evs"
    using run_deleted_only_old[OF assms(1,2)] by blast
next
  assume r: "(ds \<in> set items \<and> isOldDaemon ds) \<or> GotDaemonSet ns oldProvisionerName None ds \<in> set evs"
  from assms show "\<exists>e. DeletedDaemonSet ds e \<in> set evs"
  proof (cases rule: cleanupRun.cases)
    case (WaitedFound resps items' derr polls p)
    then have pr: "pollRun (oldAppNames items') c polls err latch"
      and len: "length resps = length (oldDaemons items')" by simp_all
    have it: "items' = items" using WaitedFound(1) assms(2) by simp
    from r show ?thesis
    proof
      assume "ds \<in> set items \<and> isOldDaemon ds"
      then have "ds \<in> set (oldDaemons items)" by (simp add: oldDaemons_def)
      from deletions_complete[OF _ this, of resps] len it
      show ?thesis using WaitedFound(1) by auto
    next
      assume "GotDaemonSet ns oldProvisionerName None ds \<in> set evs"
      then have "ds = p"
        using WaitedFound(1) polls_only_listings(2)[OF pr] deletions_other(1)
        by auto
      then show ?thesis using WaitedFound(1) by auto
    qed
  next
    case (WaitedAbsent resps items' gerr polls p)
    then have pr: "pollRun (oldAppNames items') c polls err latch"
      and len: "length resps = length (oldDaemons items')" and g: "gerr \<noteq> None" by simp_all
    have it: "items' = items" using WaitedAbsent(1) assms(2) by simp
    from r show ?thesis
    proof
      assume "ds \<in> set items \<and> isOldDaemon ds"
      then have "ds \<in> set (oldDaemons items)" by (simp add: oldDaemons_def)
      from deletions_complete[OF _ this, of resps] len it
      show ?thesis using WaitedAbsent(1) by auto
    next
      assume "GotDaemonSet ns oldProvisionerName None ds \<in> set evs"
      then have False
        using WaitedAbsent(1) g polls_only_listings(2)[OF pr] deletions_other(1)
        by auto
      then show ?thesis ..
    qed
  qed (simp_all add: podSelectors_simps podSelectors_append deletions_props)
qed

lemma run_drained_answer:
  assumes "cleanupRun ns c evs err latch" "err = None"
  shows "\<exists>sel e w. ListedPods sel e [] \<in> set evs \<and> okList e \<and> (e, []) = fst (List_Pods c sel w)"
proof -
  have p: "\<And>names polls latch. pollRun names c polls None latch \<Longrightarrow>
      \<exists>sel e w. ListedPods sel e [] \<in> set polls \<and> okList e \<and> (e, []) = fst (List_Pods c sel w)"
  proof -
    fix names polls latch assume "pollRun names (c::'a Client) polls None latch"
    then show "\<exists>sel e w. ListedPods sel e [] \<in> set polls \<and> okList e \<and> (e, []) = fst (List_Pods c sel w)"
    proof (cases rule: pollRun.cases)
      case (PodListFailed n evs sel items)
      then show ?thesis by (simp add: okList_def)
    next
      case (Drained n evs sel e)
      then show ?thesis by (auto simp: pollEvent_def)
    qed auto
  qed
  from assms show ?thesis
    by (cases rule: cleanupRun.cases) (auto dest: not_okDelete_Some dest!: p)
qed

lemma run_exhausted:
  assumes "cleanupRun ns c evs err latch" "filter isPodListing evs \<noteq> []"
    "list_all notYet (filter isPodListing evs)"
  shows "err = Some ErrWaitTimeout"
  using assms
proof (cases rule: cleanupRun.cases)
  case (WaitedFound resps items derr polls p)
  then have pr: "pollRun (oldAppNames items) c polls err latch" by simp
  have "filter isPodListing polls = polls"
    using pollRun_facts(2)[OF pr] by (simp add: list_all_iff)
  then have "filter isPodListing evs = polls"
    using WaitedFound(1) by (simp add: filter_listings_deletions)
  with assms(2,3) pollRun_exhausted[OF pr] show ?thesis by simp
next
  case (WaitedAbsent resps items gerr polls p)
  then have pr: "pollRun (oldAppNames items) c polls err latch" by simp
  have "filter isPodListing polls = polls"
    using pollRun_facts(2)[OF pr] by (simp add: list_all_iff)
  then have "filter isPodListing evs = polls"
    using WaitedAbsent(1) by (simp add: filter_listings_deletions)
  with assms(2,3) pollRun_exhausted[OF pr] show ?thesis by simp
qed (simp_all add: filter_listings_deletions)

lemma run_continues:
  assumes "cleanupRun ns c evs err latch" "hd evs = ListedDaemonSets ns None items"
    "\<forall>ds e. DeletedDaemonSet ds e \<in> set evs \<longrightarrow> okDelete e"
  shows "(\<forall>ds \<in> set (oldDaemons items). \<exists>e. DeletedDaemonSet ds e \<in> set evs) \<and>
         (\<exists>gerr p. GotDaemonSet ns oldProvisionerName gerr p \<in> set evs)"
  using assms
proof (cases rule: cleanupRun.cases)
  case (ListFailed items')
  then show ?thesis using assms(2) by simp
next
  case (DeleteFailed resps items')
  then have a: "resps \<noteq> []" "length resps \<le> length (oldDaemons items')"
    and bad: "\<not> okDelete (last resps)" by simp_all
  from deletions_last[OF a]
  have "DeletedDaemonSet (oldDaemons items' ! (length resps - 1)) (last resps) \<in>
      set (deletions (oldDaemons items') resps)"
    by (metis last_in_set)
  then have "okDelete (last resps)" using assms(3) DeleteFailed(1) by auto
  then show ?thesis using bad by simp
next
  case (GetFailed resps items' p)
  then have len: "length resps = length (oldDaemons items')" by simp
  have it: "items' = items" using GetFailed(1) assms(2) by simp
  show ?thesis using deletions_complete[OF len] GetFailed(1) it by auto
next
  case (ProvisionerDeleteFailed resps items' p)
  then have len: "length resps = length (oldDaemons items')" by simp
  have it: "items' = items" using ProvisionerDeleteFailed(1) assms(2) by simp
  show ?thesis using deletions_complete[OF len] ProvisionerDeleteFailed(1) it by auto
next
  case (WaitedFound resps items' derr polls p)
  then have len: "length resps = length (oldDaemons items')" by simp
  have it: "items' = items" using WaitedFound(1) assms(2) by simp
  show ?thesis using deletions_complete[OF len] WaitedFound(1) it by auto
next
  case (WaitedAbsent resps items' gerr polls p)
  then have len: "length resps = length (oldDaemons items')" by simp
  have it: "items' = items" using WaitedAbsent(1) assms(2) by simp
  show ?thesis using deletions_complete[OF len] WaitedAbsent(1) it by auto
qed

subsection \<open>Reconcile and the upsert\<close>

lemma Reconcile_keeps_latch:
  assumes k: "helpersKeepLatch h" and l: "deletedStaticProvisioner r"
  shows "deletedStaticProvisioner (snd (Reconcile h request r))"
proof -
  obtain info aerr r2 where a: "aggregateDeamonInfo h request r = ((info, aerr), r2)"
    by (metis surj_pair)
  have l2: "deletedStaticProvisioner r2"
    using k l a unfolding helpersKeepLatch_def by (metis snd_conv)
  obtain cm op cerr r3 where
    c: "reconcileProvisionerConfigMap h request (lvSets info) (lvs info) (ownerRefs info) r2 =
          (((cm, op), cerr), r3)"
    by (metis surj_pair)
  have l3: "deletedStaticProvisioner r3"
    using k l2 c unfolding helpersKeepLatch_def by (metis snd_conv)
  obtain ds op' derr r4 where
    d: "CreateOrUpdateDaemonset h
          (getDiskMakerDSMutateFn h request (tolerations info) (ownerRefs info) (nodeSelector info)
             (dataHash h (Data cm))) r3 = (((ds, op'), derr), r4)"
    by (metis surj_pair)
  have l4: "deletedStaticProvisioner r4"
    using k l3 d unfolding helpersKeepLatch_def by (metis snd_conv)
  have "snd (Reconcile h request r) = r2 \<or> snd (Reconcile h request r) = r3 \<or>
        snd (Reconcile h request r) = r4"
    using a c d by (simp add: Reconcile_def cleanup_latched[OF l] Let_def)
  then show ?thesis using l2 l3 l4 by auto
qed

lemma upsert_shape:
  assumes u: "CreateOrUpdateDaemonset_spec namespace name mutateFn r = (((ds, op), err), r')"
  shows "client r' = client r \<and> deletedStaticProvisioner r' = deletedStaticProvisioner r \<and>
         (\<exists>gerr fetched writes. history r' = history r @ GotDaemonSet namespace name gerr fetched # writes \<and>
            (err = None \<longrightarrow> (\<exists>snapshot. ds = mutateFn snapshot)) \<and>
            (writes = [] \<or> (\<exists>snapshot werr. ds = mutateFn snapshot \<and>
               (writes = [CreatedDaemonSet ds werr] \<or> writes = [UpdatedDaemonSet ds werr]) \<and>
               (err = None \<longrightarrow> werr = None))) \<and>
            (err = None \<and> op \<noteq> OperationResultNone \<longrightarrow> writes \<noteq> []))"
proof -
  obtain gerr fetched r1 where g: "clientGetDaemonSet namespace name r = ((gerr, fetched), r1)"
    by (metis surj_pair)
  have g1: "client r1 = client r" "deletedStaticProvisioner r1 = deletedStaticProvisioner r"
     "history r1 = history r @ [GotDaemonSet namespace name gerr fetched]"
    using clientGetDaemonSet_eq[OF g] by simp_all
  define snapshot where "snapshot =
    (if IsNotFound gerr then emptyDaemonSet\<lparr>Name := name, Namespace := namespace\<rparr> else fetched)"
  obtain cerr rc where c: "clientCreate (mutateFn snapshot) r1 = (cerr, rc)" by (metis surj_pair)
  note c1 = clientCreate_eq[OF c]
  obtain uerr ru where up: "clientUpdate (mutateFn snapshot) r1 = (uerr, ru)" by (metis surj_pair)
  note u1 = clientUpdate_eq[OF up]
  consider (fail) "gerr \<noteq> None" "\<not> IsNotFound gerr"
    | (same) "gerr = None \<or> IsNotFound gerr" "mutateFn snapshot = snapshot"
    | (create) "IsNotFound gerr" "mutateFn snapshot \<noteq> snapshot"
    | (update) "gerr = None" "mutateFn snapshot \<noteq> snapshot"
    by (cases gerr) auto
  then show ?thesis
  proof cases
    case fail
    then have "ds = fetched" "err = gerr" "r' = r1"
      using u g by (auto simp: CreateOrUpdateDaemonset_spec_def)
    then show ?thesis using g1 fail by auto
  next
    case same
    then have "ds = mutateFn snapshot" "err = None" "r' = r1" "op = OperationResultNone"
      using u g by (auto simp: CreateOrUpdateDaemonset_spec_def Let_def snapshot_def split: if_splits)
    then show ?thesis using g1 by auto
  next
    case create
    then have "gerr \<noteq> None" by (cases gerr) auto
    then have "ds = mutateFn snapshot" "r' = rc" "err = cerr"
      using u g c create
      by (auto simp: CreateOrUpdateDaemonset_spec_def Let_def snapshot_def split: if_splits)
    then show ?thesis using g1 c1 by auto
  next
    case update
    then have nf: "\<not> IsNotFound gerr" by simp
    then have "ds = mutateFn snapshot" "r' = ru" "err = uerr"
      using u g up update
      by (auto simp: CreateOrUpdateDaemonset_spec_def Let_def snapshot_def split: if_splits)
    then show ?thesis using g1 u1 by auto
  qed
qed

lemma mutate_sets_annotation:
  "Annotations (getDiskMakerDSMutateFn_spec request tols owners sel hash ds) dataHashAnnotationKey =
     Some hash"
  by (simp add: getDiskMakerDSMutateFn_spec_def)

lemma exampleHelpers_keep_latch: "helpersKeepLatch exampleHelpers"
  unfolding helpersKeepLatch_def
proof (intro allI impI conjI)
  fix r :: "Cluster DaemonReconciler" and mutateFn
  assume l: "deletedStaticProvisioner r"
  obtain ds op err r' where
    "CreateOrUpdateDaemonset_spec ''storage'' DiskMakerName mutateFn r = (((ds, op), err), r')"
    by (metis surj_pair)
  from upsert_shape[OF this] l this
  show "deletedStaticProvisioner (snd (CreateOrUpdateDaemonset exampleHelpers mutateFn r))"
    by (simp add: exampleHelpers_def)
qed (simp_all add: exampleHelpers_def)

subsection \<open>The store behind the client\<close>

lemma store_ops:
  "snd (List_DaemonSets storeClient ns w) = w"
  "snd (Get_DaemonSet storeClient ns n w) = w"
  "daemonSets (snd (List_Pods storeClient sel w)) = daemonSets w"
  "daemonSets (snd (Delete_DaemonSet storeClient t w)) =
     filter (\<lambda>d. \<not> sameObject t d) (daemonSets w)"
  "fst (List_DaemonSets storeClient ns w) = (None, filter (\<lambda>d. Namespace d = ns) (daemonSets w))"
  "fst (Get_DaemonSet storeClient ns n w) = (None, p) \<Longrightarrow> Namespace p = ns \<and> Name p = n"
proof -
  show "snd (List_DaemonSets storeClient ns w) = w" by (simp add: storeClient_def)
  show "snd (Get_DaemonSet storeClient ns n w) = w"
    by (simp add: storeClient_def split: option.splits)
  show "daemonSets (snd (List_Pods storeClient sel w)) = daemonSets w"
    by (simp add: storeClient_def split: list.splits prod.splits)
  have "\<not> list_ex (sameObject t) (daemonSets w) \<Longrightarrow>
      filter (\<lambda>d. \<not> sameObject t d) (daemonSets w) = daemonSets w"
    by (simp add: list_ex_iff)
  then show "daemonSets (snd (Delete_DaemonSet storeClient t w)) =
     filter (\<lambda>d. \<not> sameObject t d) (daemonSets w)"
    by (simp add: storeClient_def)
  show "fst (List_DaemonSets storeClient ns w) = (None, filter (\<lambda>d. Namespace d = ns) (daemonSets w))"
    by (simp add: storeClient_def)
  show "fst (Get_DaemonSet storeClient ns n w) = (None, p) \<Longrightarrow> Namespace p = ns \<and> Name p = n"
    by (auto simp: storeClient_def find_Some_iff split: option.splits)
qed

lemma store_calls:
  assumes "client r = storeClient"
  shows "cluster (snd (clientListDaemonSets ns r)) = cluster r"
    and "cluster (snd (clientGetDaemonSet ns n r)) = cluster r"
    and "daemonSets (cluster (snd (clientListPods sel r))) = daemonSets (cluster r)"
    and "daemonSets (cluster (snd (clientDelete t r))) =
           filter (\<lambda>d. \<not> sameObject t d) (daemonSets (cluster r))"
proof -
  show "cluster (snd (clientListDaemonSets ns r)) = cluster r"
    using store_ops(1)[of ns "cluster r"] assms
    by (auto simp: clientListDaemonSets_def split: prod.splits)
  show "cluster (snd (clientGetDaemonSet ns n r)) = cluster r"
    using store_ops(2)[of ns n "cluster r"] assms
    by (auto simp: clientGetDaemonSet_def split: prod.splits)
  show "daemonSets (cluster (snd (clientListPods sel r))) = daemonSets (cluster r)"
    using store_ops(3)[of sel "cluster r"] assms
    by (auto simp: clientListPods_def split: prod.splits)
  show "daemonSets (cluster (snd (clientDelete t r))) =
           filter (\<lambda>d. \<not> sameObject t d) (daemonSets (cluster r))"
    using store_ops(4)[of t "cluster r"] assms
    by (auto simp: clientDelete_def split: prod.splits)
qed

lemma delete_retired_keeps_rest:
  assumes "\<forall>d \<in> set xs. sameObject t d \<longrightarrow> retired ns d"
  shows "filter (\<lambda>d. \<not> retired ns d) (filter (\<lambda>d. \<not> sameObject t d) xs) =
         filter (\<lambda>d. \<not> retired ns d) xs"
  using assms by (induction xs) auto

lemma deleteOldDaemons_store:
  assumes "client r = storeClient"
    and "\<forall>t \<in> set items. isOldDaemon t \<longrightarrow>
           (\<forall>d \<in> set (daemonSets (cluster r)). sameObject t d \<longrightarrow> retired ns d)"
  shows "unretired ns (cluster (snd (deleteOldDaemons items names r))) = unretired ns (cluster r) \<and>
         set (daemonSets (cluster (snd (deleteOldDaemons items names r)))) \<subseteq>
           set (daemonSets (cluster r))"
  using assms
proof (induction items arbitrary: names r)
  case Nil
  then show ?case by simp
next
  case (Cons t rest)
  show ?case
  proof (cases "isOldDaemon t")
    case False
    then have "deleteOldDaemons (t # rest) names r = deleteOldDaemons rest names r"
      by (auto simp: isOldDaemon_def hasOldPrefix_def split: option.splits)
    then show ?thesis using Cons.IH[of r names] Cons.prems by simp
  next
    case True
    then obtain l where l: "Labels t appLabelKey = Some l" "hasOldPrefix l"
      by (auto simp: isOldDaemon_def split: option.splits)
    obtain e r1 where d: "clientDelete t r = (e, r1)" by (metis surj_pair)
    have c1: "client r1 = storeClient" using clientDelete_eq[OF d] Cons.prems(1) by simp
    have ds1: "daemonSets (cluster r1) = filter (\<lambda>d. \<not> sameObject t d) (daemonSets (cluster r))"
      using store_calls(4)[OF Cons.prems(1), of t] d by simp
    have "\<forall>d \<in> set (daemonSets (cluster r)). sameObject t d \<longrightarrow> retired ns d"
      using Cons.prems(2) True by simp
    then have u1: "unretired ns (cluster r1) = unretired ns (cluster r)"
      unfolding unretired_def ds1 by (rule delete_retired_keeps_rest)
    have s1: "set (daemonSets (cluster r1)) \<subseteq> set (daemonSets (cluster r))"
      using ds1 by auto
    have p1: "\<forall>t \<in> set rest. isOldDaemon t \<longrightarrow>
           (\<forall>d \<in> set (daemonSets (cluster r1)). sameObject t d \<longrightarrow> retired ns d)"
      using Cons.prems(2) s1 by auto
    show ?thesis
    proof (cases "okDelete e")
      case True
      then have "deleteOldDaemons (t # rest) names r = deleteOldDaemons rest (names @ [l]) r1"
        using l d by (auto simp: hasOldPrefix_def okDelete_def)
      then show ?thesis using Cons.IH[OF c1 p1, of "names @ [l]"] u1 s1 by auto
    next
      case False
      then have "deleteOldDaemons (t # rest) names r = ((e, names @ [l]), r1)"
        using l d by (auto simp: hasOldPrefix_def okDelete_def)
      then show ?thesis using u1 s1 by simp
    qed
  qed
qed

lemma podsGone_store:
  assumes "client r = storeClient"
  shows "client (snd (snd (podsGone (names, r)))) = storeClient \<and>
         daemonSets (cluster (snd (snd (podsGone (names, r))))) = daemonSets (cluster r)"
proof -
  obtain e0 req where n: "NewRequirement appLabelKey In (names @ [oldProvisionerName]) = (e0, req)"
    by (metis surj_pair)
  obtain e items r1 where l: "clientListPods [req] r = ((e, items), r1)" by (metis surj_pair)
  have r1: "client r1 = storeClient" "daemonSets (cluster r1) = daemonSets (cluster r)"
    using clientListPods_eq[OF l] store_calls(3)[OF assms, of "[req]"] l assms by simp_all
  have "snd (snd (podsGone (names, r))) = r \<or> snd (snd (podsGone (names, r))) = r1"
    using n l by (simp add: podsGone_def Let_def Add_def NewSelector_def)
  then show ?thesis using r1 assms by auto
qed

lemma iter_podsGone_store:
  assumes "client r = storeClient"
  shows "client (snd (iter podsGone k (names, r))) = storeClient \<and>
         daemonSets (cluster (snd (iter podsGone k (names, r)))) = daemonSets (cluster r)"
proof (induction k)
  case 0
  show ?case using assms by (simp add: iter_0)
next
  case (Suc k)
  obtain ns rk where s: "iter podsGone k (names, r) = (ns, rk)" by (metis surj_pair)
  from Suc s have "client rk = storeClient" "daemonSets (cluster rk) = daemonSets (cluster r)"
    by simp_all
  with podsGone_store[of rk ns] s show ?case by (simp add: iter_Suc_back)
qed

lemma waitForPods_store:
  assumes "client r = storeClient"
  shows "daemonSets (cluster (snd (waitForPods names r))) = daemonSets (cluster r)"
proof -
  obtain err names' r' where
    e: "ExponentialBackoff cleanupBackoff podsGone (names, r) = (err, (names', r'))"
    by (metis surj_pair)
  from ExponentialBackoff_attempts[of cleanupBackoff podsGone "(names, r)"]
  obtain k where "snd (ExponentialBackoff cleanupBackoff podsGone (names, r)) =
      iter podsGone k (names, r)" by blast
  then have "iter podsGone k (names, r) = (names', r')" using e by simp
  with iter_podsGone_store[OF assms, of k names]
  have "daemonSets (cluster r') = daemonSets (cluster r)" by simp
  then show ?thesis using e by (simp add: waitForPods_def)
qed

lemma distinct_keys_same:
  assumes "distinct (map objectKey xs)" "t \<in> set xs" "d \<in> set xs" "sameObject t d"
  shows "d = t"
proof -
  have "objectKey d = objectKey t" using assms(4) by (simp add: objectKey_def sameObject_def)
  then show ?thesis using assms(1-3) by (meson distinct_map inj_on_def)
qed

lemma cleanup_store_frame:
  assumes c: "client r = storeClient" and k: "distinct (map objectKey (daemonSets (cluster r)))"
  shows "unretired ns (cluster (snd (cleanupOldDaemonsets ns r))) = unretired ns (cluster r)"
proof (cases "deletedStaticProvisioner r")
  case True
  then show ?thesis by (simp add: cleanup_latched)
next
  case l: False
  let ?w = "cluster r"
  obtain lerr items r1 where cl: "clientListDaemonSets ns r = ((lerr, items), r1)"
    by (metis surj_pair)
  have c1: "client r1 = storeClient" "cluster r1 = ?w"
    using clientListDaemonSets_eq[OF cl] store_calls(1)[OF c, of ns] cl c by simp_all
  have it: "items = filter (\<lambda>d. Namespace d = ns) (daemonSets ?w)"
    using clientListDaemonSets_eq[OF cl] store_ops(5)[of ns ?w] c by simp
  have pre: "\<forall>t \<in> set items. isOldDaemon t \<longrightarrow>
           (\<forall>d \<in> set (daemonSets (cluster r1)). sameObject t d \<longrightarrow> retired ns d)"
  proof (intro ballI impI)
    fix t d assume t: "t \<in> set items" "isOldDaemon t"
      and d: "d \<in> set (daemonSets (cluster r1))" "sameObject t d"
    have "t \<in> set (daemonSets ?w)" "Namespace t = ns" using t(1) it by auto
    then have "d = t" using distinct_keys_same[OF k _ _ d(2)] d(1) c1(2) by simp
    then show "retired ns d" using t(2) \<open>Namespace t = ns\<close> by (simp add: retired_def)
  qed
  obtain derr names r2 where d: "deleteOldDaemons items [] r1 = ((derr, names), r2)"
    by (metis surj_pair)
  have c2: "client r2 = storeClient" using deleteOldDaemons_shape[OF d] c1(1) by simp
  have u2: "unretired ns (cluster r2) = unretired ns ?w"
    using deleteOldDaemons_store[OF c1(1) pre, of "[]"] d c1(2) by simp
  obtain gerr p r3 where g: "clientGetDaemonSet ns oldProvisionerName r2 = ((gerr, p), r3)"
    by (metis surj_pair)
  have c3: "client r3 = storeClient" "cluster r3 = cluster r2"
    using clientGetDaemonSet_eq[OF g] store_calls(2)[OF c2, of ns oldProvisionerName] g c2
    by simp_all
  have pk: "gerr = None \<Longrightarrow> Namespace p = ns \<and> Name p = oldProvisionerName"
    using clientGetDaemonSet_eq[OF g] store_ops(6)[of ns oldProvisionerName "cluster r2" p] c2
    by (metis)
  obtain perr r4 where pd: "clientDelete p r3 = (perr, r4)" by (metis surj_pair)
  have c4: "client r4 = storeClient" using clientDelete_eq[OF pd] c3(1) by simp
  have u4: "gerr = None \<Longrightarrow> unretired ns (cluster r4) = unretired ns ?w"
  proof -
    assume gn: "gerr = None"
    have ds4: "daemonSets (cluster r4) = filter (\<lambda>d. \<not> sameObject p d) (daemonSets (cluster r3))"
      using store_calls(4)[OF c3(1), of p] pd by simp
    have "\<forall>d \<in> set (daemonSets (cluster r3)). sameObject p d \<longrightarrow> retired ns d"
      using pk[OF gn] by (auto simp: sameObject_def retired_def)
    then have "unretired ns (cluster r4) = unretired ns (cluster r3)"
      unfolding unretired_def ds4 by (rule delete_retired_keeps_rest)
    then show ?thesis using c3(2) u2 by simp
  qed
  have w4: "unretired ns (cluster (snd (waitForPods names r4))) = unretired ns (cluster r4)"
    using waitForPods_store[OF c4, of names] by (simp add: unretired_def)
  have w3: "unretired ns (cluster (snd (waitForPods names r3))) = unretired ns (cluster r3)"
    using waitForPods_store[OF c3(1), of names] by (simp add: unretired_def)
  have "cleanupOldDaemonsets ns r = (lerr, r1) \<or> cleanupOldDaemonsets ns r = (derr, r2) \<or>
        cleanupOldDaemonsets ns r = (gerr, r3) \<or>
        (gerr = None \<and> cleanupOldDaemonsets ns r = (perr, r4)) \<or>
        (gerr = None \<and> cleanupOldDaemonsets ns r = waitForPods names r4) \<or>
        cleanupOldDaemonsets ns r = waitForPods names r3"
    using l cl d g pd unfolding cleanupOldDaemonsets_def by (simp split: if_splits)
  then show ?thesis
    using c1(2) u2 c3(2) u4 w4 w3 by (elim disjE conjE) simp_all
qed

subsection \<open>The concrete cluster, evaluated\<close>

lemma validLabelKey_app: "validLabelKey appLabelKey"
  by (simp add: validLabelKey_def appLabelKey_def isAlnum_def isNameChar_def)

lemma valid_oldProvisionerName: "validLabelValue oldProvisionerName"
  by (simp add: validLabelValue_def oldProvisionerName_def isAlnum_def isNameChar_def)

lemma valid_diskmaker_fast: "validLabelValue ''local-volume-diskmaker-fast''"
  by (simp add: validLabelValue_def isAlnum_def isNameChar_def)

lemma NewRequirement_valid:
  "vals \<noteq> [] \<Longrightarrow> list_all validLabelValue vals \<Longrightarrow>
     NewRequirement appLabelKey In vals = (None, requirementFor vals)"
  by (auto simp: NewRequirement_def Let_def validLabelKey_app requirementFor_def find_None_iff
        list_all_iff split: option.splits)

lemmas eval_defs = cleanupOldDaemonsets_def clientListDaemonSets_def clientGetDaemonSet_def
  clientDelete_def clientListPods_def waitForPods_def podsGone_def cleanupBackoff_def
  ExponentialBackoff.simps NewRequirement_valid[unfolded appLabelKey_def] valid_oldProvisionerName[unfolded oldProvisionerName_def]
  valid_diskmaker_fast NewSelector_def Add_def oldProvisionerName_def appLabelKey_def
  Matches_def RequirementMatches_def HasPrefix_def requirementFor_def
  oldLVDiskMakerPrefix_def oldLVProvisionerPrefix_def
  Step_def truncateDuration_def Second_def Minute_def Let_def

lemmas obj_defs = startReconciler_def startCluster_def storeClient_def legacyDiskmaker_def
  legacyProvisioner_def unrelated_def diskmakerPod_def emptyDaemonSet_def sameObject_def

lemmas upsert_defs = Reconcile_def CreateOrUpdateDaemonset_spec_def getDiskMakerDSMutateFn_spec_def
  clientCreate_def clientUpdate_def exampleHelpers_def idleHelpers_def exampleRequest_def
  exampleInfo_def exampleConfigMap_def toyHash_def doneReconciler_def DiskMakerName_def
  dataHashAnnotationKey_def

lemma start_history:
  "history (snd (cleanupOldDaemonsets ''storage'' startReconciler)) =
     [ListedDaemonSets ''storage'' None [unrelated, legacyDiskmaker, legacyProvisioner],
      DeletedDaemonSet legacyDiskmaker None,
      GotDaemonSet ''storage'' oldProvisionerName None legacyProvisioner,
      DeletedDaemonSet legacyProvisioner None,
      ListedPods [requirementFor [''local-volume-diskmaker-fast'', oldProvisionerName]] None [diskmakerPod],
      ListedPods [requirementFor [''local-volume-diskmaker-fast'', oldProvisionerName, oldProvisionerName]] None []]"
  by (simp add: obj_defs eval_defs)

lemma start_result:
  "fst (cleanupOldDaemonsets ''storage'' startReconciler) = None"
  by (simp add: obj_defs eval_defs)

lemma start_events:
  "newEvents startReconciler (snd (cleanupOldDaemonsets ''storage'' startReconciler)) =
     [ListedDaemonSets ''storage'' None [unrelated, legacyDiskmaker, legacyProvisioner],
      DeletedDaemonSet legacyDiskmaker None,
      GotDaemonSet ''storage'' oldProvisionerName None legacyProvisioner,
      DeletedDaemonSet legacyProvisioner None,
      ListedPods [requirementFor [''local-volume-diskmaker-fast'', oldProvisionerName]] None [diskmakerPod],
      ListedPods [requirementFor [''local-volume-diskmaker-fast'', oldProvisionerName, oldProvisionerName]] None []]"
  using start_history by (simp add: newEvents_def startReconciler_def)

lemma start_listing:
  "fst (List_DaemonSets (client startReconciler) ''storage'' (cluster startReconciler)) =
     (None, [unrelated, legacyDiskmaker, legacyProvisioner])"
  by (simp add: obj_defs)

lemma start_unlatched: "\<not> deletedStaticProvisioner startReconciler"
  by (simp add: startReconciler_def)

lemma start_store:
  "daemonSets (cluster (snd (cleanupOldDaemonsets ''storage'' startReconciler))) = [unrelated]"
  by (simp add: obj_defs eval_defs)

lemma legacy_objects:
  "isOldDaemon legacyDiskmaker" "\<not> isOldDaemon unrelated" "\<not> isOldDaemon legacyProvisioner"
  "Labels unrelated appLabelKey = None" "Labels legacyProvisioner appLabelKey = Some ''legacy''"
  "unrelated \<noteq> legacyProvisioner" "unrelated \<noteq> legacyDiskmaker"
  "oldAppNames [unrelated, legacyDiskmaker, legacyProvisioner] = [''local-volume-diskmaker-fast'']"
  by (simp_all add: isOldDaemon_def hasOldPrefix_def HasPrefix_def legacyDiskmaker_def unrelated_def
        legacyProvisioner_def emptyDaemonSet_def appLabelKey_def oldLVDiskMakerPrefix_def
        oldLVProvisionerPrefix_def oldProvisionerName_def oldAppNames_def List.map_filter_simps)

lemma forbidden_run:
  "(case cleanupOldDaemonsets ''storage'' forbiddenReconciler of
      (err, r') \<Rightarrow> err = Some (StatusError StatusReasonForbidden) \<and>
        history r' = [ListedDaemonSets ''storage'' None [unrelated, legacyDiskmaker, legacyProvisioner],
                      DeletedDaemonSet legacyDiskmaker (Some (StatusError StatusReasonForbidden))])"
  by (simp add: forbiddenReconciler_def obj_defs eval_defs)

lemma forbidden_facts:
  "\<not> deletedStaticProvisioner forbiddenReconciler"
  "fst (List_DaemonSets (client forbiddenReconciler) ''storage'' (cluster forbiddenReconciler)) =
     (None, [unrelated, legacyDiskmaker, legacyProvisioner])"
  "newEvents forbiddenReconciler (snd (cleanupOldDaemonsets ''storage'' forbiddenReconciler)) =
     [ListedDaemonSets ''storage'' None [unrelated, legacyDiskmaker, legacyProvisioner],
      DeletedDaemonSet legacyDiskmaker (Some (StatusError StatusReasonForbidden))]"
proof -
  show "\<not> deletedStaticProvisioner forbiddenReconciler"
    by (simp add: forbiddenReconciler_def startReconciler_def)
  show "fst (List_DaemonSets (client forbiddenReconciler) ''storage'' (cluster forbiddenReconciler)) =
     (None, [unrelated, legacyDiskmaker, legacyProvisioner])"
    by (simp add: forbiddenReconciler_def obj_defs)
  have "history forbiddenReconciler = []" by (simp add: forbiddenReconciler_def startReconciler_def)
  then show "newEvents forbiddenReconciler (snd (cleanupOldDaemonsets ''storage'' forbiddenReconciler)) =
     [ListedDaemonSets ''storage'' None [unrelated, legacyDiskmaker, legacyProvisioner],
      DeletedDaemonSet legacyDiskmaker (Some (StatusError StatusReasonForbidden))]"
    using forbidden_run by (simp add: newEvents_def split: prod.splits)
qed

lemma vanished_run:
  "(case cleanupOldDaemonsets ''storage'' vanishedReconciler of
      (err, r') \<Rightarrow> err = None \<and>
        history r' =
          [ListedDaemonSets ''storage'' None [unrelated, legacyDiskmaker, legacyProvisioner],
           DeletedDaemonSet legacyDiskmaker (Some (StatusError StatusReasonNotFound)),
           GotDaemonSet ''storage'' oldProvisionerName None legacyProvisioner,
           DeletedDaemonSet legacyProvisioner (Some (StatusError StatusReasonNotFound)),
           ListedPods [requirementFor [''local-volume-diskmaker-fast'', oldProvisionerName]] None
             [diskmakerPod],
           ListedPods [requirementFor [''local-volume-diskmaker-fast'', oldProvisionerName,
             oldProvisionerName]] None []])"
  by (simp add: vanishedReconciler_def obj_defs eval_defs)

lemma vanished_facts:
  "\<not> deletedStaticProvisioner vanishedReconciler"
  "fst (List_DaemonSets (client vanishedReconciler) ''storage'' (cluster vanishedReconciler)) =
     (None, [unrelated, legacyDiskmaker, legacyProvisioner])"
  "newEvents vanishedReconciler (snd (cleanupOldDaemonsets ''storage'' vanishedReconciler)) =
     [ListedDaemonSets ''storage'' None [unrelated, legacyDiskmaker, legacyProvisioner],
      DeletedDaemonSet legacyDiskmaker (Some (StatusError StatusReasonNotFound)),
      GotDaemonSet ''storage'' oldProvisionerName None legacyProvisioner,
      DeletedDaemonSet legacyProvisioner (Some (StatusError StatusReasonNotFound)),
      ListedPods [requirementFor [''local-volume-diskmaker-fast'', oldProvisionerName]] None
        [diskmakerPod],
      ListedPods [requirementFor [''local-volume-diskmaker-fast'', oldProvisionerName,
        oldProvisionerName]] None []]"
  "fst (cleanupOldDaemonsets ''storage'' vanishedReconciler) = None"
proof -
  show "\<not> deletedStaticProvisioner vanishedReconciler"
    by (simp add: vanishedReconciler_def startReconciler_def)
  show "fst (List_DaemonSets (client vanishedReconciler) ''storage'' (cluster vanishedReconciler)) =
     (None, [unrelated, legacyDiskmaker, legacyProvisioner])"
    by (simp add: vanishedReconciler_def obj_defs)
  have "history vanishedReconciler = []" by (simp add: vanishedReconciler_def startReconciler_def)
  then show "newEvents vanishedReconciler (snd (cleanupOldDaemonsets ''storage'' vanishedReconciler)) =
     [ListedDaemonSets ''storage'' None [unrelated, legacyDiskmaker, legacyProvisioner],
      DeletedDaemonSet legacyDiskmaker (Some (StatusError StatusReasonNotFound)),
      GotDaemonSet ''storage'' oldProvisionerName None legacyProvisioner,
      DeletedDaemonSet legacyProvisioner (Some (StatusError StatusReasonNotFound)),
      ListedPods [requirementFor [''local-volume-diskmaker-fast'', oldProvisionerName]] None
        [diskmakerPod],
      ListedPods [requirementFor [''local-volume-diskmaker-fast'', oldProvisionerName,
        oldProvisionerName]] None []]"
    using vanished_run by (simp add: newEvents_def split: prod.splits)
  show "fst (cleanupOldDaemonsets ''storage'' vanishedReconciler) = None"
    using vanished_run by (simp split: prod.splits)
qed

lemma stuck_result:
  "(case cleanupOldDaemonsets ''storage'' stuckReconciler of
      (err, r') \<Rightarrow> length (filter isPodListing (history r')) = 10 \<and>
        list_all notYet (filter isPodListing (history r')))"
  by (simp add: stuckReconciler_def obj_defs eval_defs okList_def)

lemma stuck_facts:
  "\<not> deletedStaticProvisioner stuckReconciler"
  "\<forall>sel w. snd (fst (List_Pods (client stuckReconciler) sel w)) \<noteq> []"
  by (simp_all add: stuckReconciler_def startReconciler_def)






section \<open>The claims\<close>

text \<open>
  C1. Once \<open>deletedStaticProvisioner\<close> is true, \<open>cleanupOldDaemonsets\<close> returns \<^verbatim>\<open>nil\<close> and
  leaves the reconciler as it was: no event is added to the history and the cluster is
  not consulted, in any number of later calls. The latch goes from false to true only
  in a call that returns \<^verbatim>\<open>nil\<close> out of the drain wait, whose backoff loop returned no
  error and whose last event is a pod listing with zero items. No call of
  \<open>cleanupOldDaemonsets\<close> or \<open>Reconcile\<close> sets a true latch back to false; for \<open>Reconcile\<close>
  this needs the helpers defined in other files to leave a set latch set.
\<close>

theorem latch_absorbing:
  "(deletedStaticProvisioner r \<longrightarrow>
      cleanupOldDaemonsets ns r = (None, r) \<and>
      foldl (\<lambda>s n. snd (cleanupOldDaemonsets n s)) r nss = r \<and>
      (helpersKeepLatch h \<longrightarrow> deletedStaticProvisioner (snd (Reconcile h request r)))) \<and>
   (\<not> deletedStaticProvisioner r \<and> deletedStaticProvisioner (snd (cleanupOldDaemonsets ns r)) \<longrightarrow>
      fst (cleanupOldDaemonsets ns r) = None \<and>
      (\<exists>names r0. \<not> deletedStaticProvisioner r0 \<and>
         waitForPods names r0 = cleanupOldDaemonsets ns r \<and>
         fst (ExponentialBackoff cleanupBackoff podsGone (names, r0)) = None) \<and>
      (\<exists>sel e. last (history (snd (cleanupOldDaemonsets ns r))) = ListedPods sel e [] \<and> okList e))"
proof (intro conjI impI)
  assume l: "deletedStaticProvisioner r"
  show "cleanupOldDaemonsets ns r = (None, r)" using l by (rule cleanup_latched)
  show "foldl (\<lambda>s n. snd (cleanupOldDaemonsets n s)) r nss = r"
    using l by (rule cleanup_sequence_latched)
  show "deletedStaticProvisioner (snd (Reconcile h request r))" if "helpersKeepLatch h"
    using that l by (rule Reconcile_keeps_latch)
next
  assume a: "\<not> deletedStaticProvisioner r \<and> deletedStaticProvisioner (snd (cleanupOldDaemonsets ns r))"
  obtain err r' where c: "cleanupOldDaemonsets ns r = (err, r')" by (metis surj_pair)
  from a c have l: "\<not> deletedStaticProvisioner r" and s: "deletedStaticProvisioner r'" by simp_all
  from cleanup_sets_latch[OF l c s] obtain names r0 where
    w: "\<not> deletedStaticProvisioner r0" "waitForPods names r0 = (err, r')" by blast
  note ws = waitForPods_sets_latch[OF w s]
  from cleanup_run[OF l c] obtain evs where
    evs: "history r' = history r @ evs" "cleanupRun ns (client r) evs err (deletedStaticProvisioner r')"
    by blast
  from run_latch(2)[OF evs(2) s] obtain sel e where
    last: "last evs = ListedPods sel e []" "okList e" by blast
  from evs(2) have "evs \<noteq> []" by (cases rule: cleanupRun.cases) auto
  then have hl: "last (history r') = ListedPods sel e []" using evs(1) last(1) by simp
  show "fst (cleanupOldDaemonsets ns r) = None" using c ws by simp
  show "\<exists>names r0. \<not> deletedStaticProvisioner r0 \<and>
         waitForPods names r0 = cleanupOldDaemonsets ns r \<and>
         fst (ExponentialBackoff cleanupBackoff podsGone (names, r0)) = None"
    using w ws c by auto
  show "\<exists>sel e. last (history (snd (cleanupOldDaemonsets ns r))) = ListedPods sel e [] \<and> okList e"
    using c hl last(2) by auto
qed

theorem latch_absorbing_witness:
  "cleanupOldDaemonsets ''storage'' doneReconciler = (None, doneReconciler) \<and>
   foldl (\<lambda>s n. snd (cleanupOldDaemonsets n s)) doneReconciler [''storage'', ''default''] = doneReconciler \<and>
   deletedStaticProvisioner (snd (Reconcile exampleHelpers exampleRequest doneReconciler)) \<and>
   \<not> deletedStaticProvisioner startReconciler \<and>
   deletedStaticProvisioner (snd (cleanupOldDaemonsets ''storage'' startReconciler)) \<and>
   fst (cleanupOldDaemonsets ''storage'' startReconciler) = None \<and>
   (\<exists>sel e. last (history (snd (cleanupOldDaemonsets ''storage'' startReconciler))) =
      ListedPods sel e [] \<and> okList e)"
proof -
  have d: "deletedStaticProvisioner doneReconciler" by (simp add: doneReconciler_def)
  have s: "\<not> deletedStaticProvisioner startReconciler" by (simp add: startReconciler_def)
  have "fst (cleanupOldDaemonsets ''storage'' startReconciler) = None" by (rule start_result)
  then have t: "deletedStaticProvisioner (snd (cleanupOldDaemonsets ''storage'' startReconciler))"
    using cleanup_run[OF s, of "''storage''"] run_latch(1)
    by (metis prod.collapse)
  from latch_absorbing[of doneReconciler "''storage''" "[''storage'', ''default'']"
            exampleHelpers exampleRequest] d exampleHelpers_keep_latch
  have a: "cleanupOldDaemonsets ''storage'' doneReconciler = (None, doneReconciler)"
    "foldl (\<lambda>s n. snd (cleanupOldDaemonsets n s)) doneReconciler [''storage'', ''default''] =
       doneReconciler"
    "deletedStaticProvisioner (snd (Reconcile exampleHelpers exampleRequest doneReconciler))"
    by blast+
  from latch_absorbing[of startReconciler "''storage''" "[]" exampleHelpers exampleRequest] s t
  have b: "fst (cleanupOldDaemonsets ''storage'' startReconciler) = None"
    "\<exists>sel e. last (history (snd (cleanupOldDaemonsets ''storage'' startReconciler))) =
      ListedPods sel e [] \<and> okList e"
    by blast+
  show ?thesis using a b s t by blast
qed

text \<open>
  C2, as amended. In a cleanup pass that reaches the drain poll, a delete is issued for a
  daemonset exactly when it is an item of the namespace listing whose \<^verbatim>\<open>app\<close> label value
  starts with one of the two old prefixes, or it is the daemonset fetched under
  \<open>oldProvisionerName\<close>. The values of every selector used in the poll are, as a set, the
  label values of the prefix-matched items together with the constant
  \<open>oldProvisionerName\<close>. The label of the daemonset fetched by name is not read.
\<close>

theorem legacy_selection:
  assumes l: "\<not> deletedStaticProvisioner r" and c: "cleanupOldDaemonsets ns r = (err, r')"
    and a: "fst (List_DaemonSets (client r) ns (cluster r)) = (lerr, items)"
    and p: "podSelectors (newEvents r r') \<noteq> []"
  shows "(\<forall>ds. (\<exists>e. DeletedDaemonSet ds e \<in> set (newEvents r r')) \<longleftrightarrow>
            (ds \<in> set items \<and> isOldDaemon ds) \<or>
            GotDaemonSet ns oldProvisionerName None ds \<in> set (newEvents r r')) \<and>
         (\<forall>sel \<in> set (podSelectors (newEvents r r')).
            \<exists>vals. sel = [requirementFor vals] \<and>
                   set vals = set (oldAppNames items) \<union> {oldProvisionerName})"
proof -
  note run = cleanup_events[OF l c a]
  have 1: "\<forall>ds. (\<exists>e. DeletedDaemonSet ds e \<in> set (newEvents r r')) \<longleftrightarrow>
            (ds \<in> set items \<and> isOldDaemon ds) \<or>
            GotDaemonSet ns oldProvisionerName None ds \<in> set (newEvents r r')"
    using run_selected_iff[OF run(1,2) p] by blast
  let ?sels = "podSelectors (newEvents r r')"
  have sels: "?sels = map (\<lambda>i. [requirementFor (oldAppNames items @ replicate (Suc i) oldProvisionerName)])
             [0..<length ?sels]"
    using run_selectors[OF run(1,2)] by blast
  have 2: "\<forall>sel \<in> set ?sels.
            \<exists>vals. sel = [requirementFor vals] \<and>
                   set vals = set (oldAppNames items) \<union> {oldProvisionerName}"
  proof
    fix sel assume "sel \<in> set ?sels"
    then have "sel \<in> set (map (\<lambda>i. [requirementFor (oldAppNames items @ replicate (Suc i) oldProvisionerName)])
             [0..<length ?sels])" using sels by simp
    then obtain i where "sel = [requirementFor (oldAppNames items @ replicate (Suc i) oldProvisionerName)]"
      by auto
    then show "\<exists>vals. sel = [requirementFor vals] \<and>
                   set vals = set (oldAppNames items) \<union> {oldProvisionerName}"
      by (intro exI[of _ "oldAppNames items @ replicate (Suc i) oldProvisionerName"]) auto
  qed
  show ?thesis using 1 2 by blast
qed

theorem legacy_selection_witness:
  "(\<exists>e. DeletedDaemonSet legacyDiskmaker e \<in>
      set (newEvents startReconciler (snd (cleanupOldDaemonsets ''storage'' startReconciler)))) \<and>
   \<not> (\<exists>e. DeletedDaemonSet unrelated e \<in>
      set (newEvents startReconciler (snd (cleanupOldDaemonsets ''storage'' startReconciler)))) \<and>
   (\<exists>vals. hd (podSelectors
        (newEvents startReconciler (snd (cleanupOldDaemonsets ''storage'' startReconciler)))) =
        [requirementFor vals] \<and>
      set vals = {''local-volume-diskmaker-fast'', oldProvisionerName})"
proof -
  let ?evs = "newEvents startReconciler (snd (cleanupOldDaemonsets ''storage'' startReconciler))"
  have c: "cleanupOldDaemonsets ''storage'' startReconciler =
      (fst (cleanupOldDaemonsets ''storage'' startReconciler),
       snd (cleanupOldDaemonsets ''storage'' startReconciler))" by simp
  have p: "podSelectors ?evs \<noteq> []" by (simp add: start_events podSelectors_simps)
  note t = legacy_selection[OF start_unlatched c start_listing p]
  have 1: "\<exists>e. DeletedDaemonSet legacyDiskmaker e \<in> set ?evs"
    using t legacy_objects(1) by auto
  have g: "GotDaemonSet ''storage'' oldProvisionerName None unrelated \<notin> set ?evs"
    using legacy_objects(6) by (simp add: start_events)
  have 2: "\<not> (\<exists>e. DeletedDaemonSet unrelated e \<in> set ?evs)"
    using t legacy_objects(2) g by blast
  have "hd (podSelectors ?evs) \<in> set (podSelectors ?evs)" using p by simp
  with t obtain vals where "hd (podSelectors ?evs) = [requirementFor vals]"
    "set vals = set (oldAppNames [unrelated, legacyDiskmaker, legacyProvisioner]) \<union> {oldProvisionerName}"
    by blast
  then have 3: "\<exists>vals. hd (podSelectors ?evs) = [requirementFor vals] \<and>
      set vals = {''local-volume-diskmaker-fast'', oldProvisionerName}"
    by (auto simp: legacy_objects)
  show ?thesis using 1 2 3 by blast
qed

text \<open>
  The counterexample to C2 as it was stated, on the concrete cluster: the daemonset named
  \<open>oldProvisionerName\<close> is fetched and deleted, its \<^verbatim>\<open>app\<close> label value is \<^verbatim>\<open>legacy\<close>, and
  the two selectors of the poll hold the diskmaker's label value and \<open>oldProvisionerName\<close>
  only.
\<close>

theorem exact_name_label_not_collected:
  "GotDaemonSet ''storage'' oldProvisionerName None legacyProvisioner \<in>
     set (history (snd (cleanupOldDaemonsets ''storage'' startReconciler))) \<and>
   DeletedDaemonSet legacyProvisioner None \<in>
     set (history (snd (cleanupOldDaemonsets ''storage'' startReconciler))) \<and>
   Name legacyProvisioner = oldProvisionerName \<and>
   Labels legacyProvisioner appLabelKey = Some ''legacy'' \<and>
   podSelectors (history (snd (cleanupOldDaemonsets ''storage'' startReconciler))) =
     [[requirementFor [''local-volume-diskmaker-fast'', oldProvisionerName]],
      [requirementFor [''local-volume-diskmaker-fast'', oldProvisionerName, oldProvisionerName]]] \<and>
   ''legacy'' \<notin> set [''local-volume-diskmaker-fast'', oldProvisionerName, oldProvisionerName] \<and>
   fst (cleanupOldDaemonsets ''storage'' startReconciler) = None"
  using start_result
  by (simp add: start_history podSelectors_simps legacy_objects)
     (simp add: legacyProvisioner_def oldProvisionerName_def)

text \<open>
  C3. The backoff of the drain wait is configured with a duration of one second, factor
  1.7, jitter 1, a cap of 120 seconds and 20 steps. The loop calls the condition at most
  20 times, so a pass lists pods at most 20 times. When a pass listed pods and every
  listing came back not empty, without an error other than not-found, it returns
  \<open>ErrWaitTimeout\<close>; it returns \<^verbatim>\<open>nil\<close> only when some listing came back empty, so it returns
  an error whenever the client never answers an empty list. Whenever it returns an error
  the latch is still false, and the next call starts again by listing the daemonsets of
  the namespace. In the concrete cluster whose pods never go away the wait gives up after
  ten listings: with these values the tenth step takes the duration past the cap, which
  sets the remaining steps to zero.
\<close>

theorem backoff_budget:
  fixes r :: "'w DaemonReconciler"
  assumes l: "\<not> deletedStaticProvisioner r" and c: "cleanupOldDaemonsets ns r = (err, r')"
  shows "Duration cleanupBackoff = 1 * Second \<and> Factor cleanupBackoff = 17 / 10 \<and>
         Jitter cleanupBackoff = 1 \<and> Cap cleanupBackoff = 120 * Second \<and>
         Steps cleanupBackoff = 20 \<and>
         (\<forall>st :: string list \<times> 'w DaemonReconciler.
            \<exists>k \<le> 20. snd (ExponentialBackoff cleanupBackoff podsGone st) = iter podsGone k st) \<and>
         length (filter isPodListing (newEvents r r')) \<le> 20 \<and>
         (filter isPodListing (newEvents r r') \<noteq> [] \<and>
          list_all notYet (filter isPodListing (newEvents r r')) \<longrightarrow> err = Some ErrWaitTimeout) \<and>
         (err = None \<longrightarrow> (\<exists>sel e. ListedPods sel e [] \<in> set (newEvents r r'))) \<and>
         ((\<forall>sel w. snd (fst (List_Pods (client r) sel w)) \<noteq> []) \<longrightarrow> err \<noteq> None) \<and>
         (err \<noteq> None \<longrightarrow>
            \<not> deletedStaticProvisioner r' \<and>
            (\<exists>lerr items rest.
               newEvents r' (snd (cleanupOldDaemonsets ns r')) = ListedDaemonSets ns lerr items # rest))"
proof -
  obtain lerr items where a: "fst (List_DaemonSets (client r) ns (cluster r)) = (lerr, items)"
    by (metis surj_pair)
  note run = cleanup_events[OF l c a]
  have cfg: "Duration cleanupBackoff = 1 * Second \<and> Factor cleanupBackoff = 17 / 10 \<and>
         Jitter cleanupBackoff = 1 \<and> Cap cleanupBackoff = 120 * Second \<and>
         Steps cleanupBackoff = 20"
    by (simp add: cleanupBackoff_def Minute_def)
  have k: "\<forall>st :: string list \<times> 'w DaemonReconciler.
            \<exists>k \<le> 20. snd (ExponentialBackoff cleanupBackoff podsGone st) = iter podsGone k st"
  proof
    fix st :: "string list \<times> 'w DaemonReconciler"
    from ExponentialBackoff_attempts[of cleanupBackoff podsGone st]
    show "\<exists>k \<le> 20. snd (ExponentialBackoff cleanupBackoff podsGone st) = iter podsGone k st"
      by (auto simp: Steps_cleanupBackoff)
  qed
  have n: "length (filter isPodListing (newEvents r r')) \<le> 20"
    using run_selectors[OF run(1,2)] by (simp add: podSelectors_def)
  have x: "filter isPodListing (newEvents r r') \<noteq> [] \<and>
          list_all notYet (filter isPodListing (newEvents r r')) \<longrightarrow> err = Some ErrWaitTimeout"
    using run_exhausted[OF run(1)] by blast
  have d: "err = None \<longrightarrow> (\<exists>sel e. ListedPods sel e [] \<in> set (newEvents r r'))"
    using run_drained_answer[OF run(1)] by blast
  have s: "(\<forall>sel w. snd (fst (List_Pods (client r) sel w)) \<noteq> []) \<longrightarrow> err \<noteq> None"
  proof (intro impI notI)
    assume h: "\<forall>sel w. snd (fst (List_Pods (client r) sel w)) \<noteq> []" and "err = None"
    from run_drained_answer[OF run(1) this(2)] obtain sel e w where
      "(e, []) = fst (List_Pods (client r) sel w)" by blast
    then have "snd (fst (List_Pods (client r) sel w)) = []" by (metis snd_conv)
    with h show False by blast
  qed
  have f: "err \<noteq> None \<longrightarrow>
            \<not> deletedStaticProvisioner r' \<and>
            (\<exists>lerr items rest.
               newEvents r' (snd (cleanupOldDaemonsets ns r')) = ListedDaemonSets ns lerr items # rest)"
  proof
    assume "err \<noteq> None"
    then have "\<not> deletedStaticProvisioner r'" using run_latch(1)[OF run(1)] by simp
    with cleanup_restarts[OF this] show "\<not> deletedStaticProvisioner r' \<and>
            (\<exists>lerr items rest.
               newEvents r' (snd (cleanupOldDaemonsets ns r')) = ListedDaemonSets ns lerr items # rest)"
      by blast
  qed
  show ?thesis using cfg k n x d s f by blast
qed

theorem backoff_budget_witness:
  "length (filter isPodListing
     (newEvents stuckReconciler (snd (cleanupOldDaemonsets ''storage'' stuckReconciler)))) = 10 \<and>
   list_all notYet (filter isPodListing
     (newEvents stuckReconciler (snd (cleanupOldDaemonsets ''storage'' stuckReconciler)))) \<and>
   fst (cleanupOldDaemonsets ''storage'' stuckReconciler) = Some ErrWaitTimeout \<and>
   \<not> deletedStaticProvisioner (snd (cleanupOldDaemonsets ''storage'' stuckReconciler)) \<and>
   (\<exists>lerr items rest.
      newEvents (snd (cleanupOldDaemonsets ''storage'' stuckReconciler))
        (snd (cleanupOldDaemonsets ''storage'' (snd (cleanupOldDaemonsets ''storage'' stuckReconciler)))) =
      ListedDaemonSets ''storage'' lerr items # rest)"
proof -
  let ?evs = "newEvents stuckReconciler (snd (cleanupOldDaemonsets ''storage'' stuckReconciler))"
  have c: "cleanupOldDaemonsets ''storage'' stuckReconciler =
      (fst (cleanupOldDaemonsets ''storage'' stuckReconciler),
       snd (cleanupOldDaemonsets ''storage'' stuckReconciler))" by simp
  note t = backoff_budget[OF stuck_facts(1) c]
  have "history stuckReconciler = []" by (simp add: stuckReconciler_def startReconciler_def)
  then have ev: "length (filter isPodListing ?evs) = 10" "list_all notYet (filter isPodListing ?evs)"
    using stuck_result by (simp_all add: newEvents_def split: prod.splits)
  then have ne: "filter isPodListing ?evs \<noteq> []" by auto
  from t ne ev(2) have e: "fst (cleanupOldDaemonsets ''storage'' stuckReconciler) = Some ErrWaitTimeout"
    by blast
  then have "fst (cleanupOldDaemonsets ''storage'' stuckReconciler) \<noteq> None" by simp
  with t ev e show ?thesis by blast
qed




text \<open>
  C5. In a cleanup pass, every delete that is followed by another event was answered with
  \<^verbatim>\<open>nil\<close>, not-found or gone. When all deletes of the pass were answered so, a delete was
  issued for every prefix-matched item of the listing and the daemonset named
  \<open>oldProvisionerName\<close> was fetched. A delete answered with not-found or gone is the last
  event of a pass only when the label requirement for the poll could not be built. A
  delete answered with any other error is the last event of the pass: that error is
  returned, the latch is still false, and the next call starts again by listing the
  daemonsets of the namespace.
\<close>

theorem delete_errors:
  assumes l: "\<not> deletedStaticProvisioner r" and c: "cleanupOldDaemonsets ns r = (err, r')"
    and a: "fst (List_DaemonSets (client r) ns (cluster r)) = (lerr, items)"
  shows "(\<forall>ds e. DeletedDaemonSet ds e \<in> set (butlast (newEvents r r')) \<longrightarrow>
            e = None \<or> IsNotFound e \<or> IsGone e) \<and>
         (lerr = None \<and>
          (\<forall>ds e. DeletedDaemonSet ds e \<in> set (newEvents r r') \<longrightarrow>
             e = None \<or> IsNotFound e \<or> IsGone e) \<longrightarrow>
            (\<forall>ds \<in> set items. isOldDaemon ds \<longrightarrow>
               (\<exists>e. DeletedDaemonSet ds e \<in> set (newEvents r r'))) \<and>
            (\<exists>gerr p. GotDaemonSet ns oldProvisionerName gerr p \<in> set (newEvents r r'))) \<and>
         (\<forall>ds e. last (newEvents r r') = DeletedDaemonSet ds e \<and> (IsNotFound e \<or> IsGone e) \<longrightarrow>
            err \<noteq> None \<and>
            err = fst (NewRequirement appLabelKey In (oldAppNames items @ [oldProvisionerName]))) \<and>
         (\<forall>ds e. last (newEvents r r') = DeletedDaemonSet ds e \<and>
                  e \<noteq> None \<and> \<not> (IsNotFound e \<or> IsGone e) \<longrightarrow>
            err = e \<and> \<not> deletedStaticProvisioner r' \<and>
            (\<exists>lerr' items' rest.
               newEvents r' (snd (cleanupOldDaemonsets ns r')) = ListedDaemonSets ns lerr' items' # rest))"
proof -
  note run = cleanup_events[OF l c a]
  have 1: "\<forall>ds e. DeletedDaemonSet ds e \<in> set (butlast (newEvents r r')) \<longrightarrow>
            e = None \<or> IsNotFound e \<or> IsGone e"
    using run_failed_delete_is_last[OF run(1)] by (auto simp: okDelete_def)
  have 4: "lerr = None \<and>
          (\<forall>ds e. DeletedDaemonSet ds e \<in> set (newEvents r r') \<longrightarrow>
             e = None \<or> IsNotFound e \<or> IsGone e) \<longrightarrow>
            (\<forall>ds \<in> set items. isOldDaemon ds \<longrightarrow>
               (\<exists>e. DeletedDaemonSet ds e \<in> set (newEvents r r'))) \<and>
            (\<exists>gerr p. GotDaemonSet ns oldProvisionerName gerr p \<in> set (newEvents r r'))"
  proof
    assume h: "lerr = None \<and>
          (\<forall>ds e. DeletedDaemonSet ds e \<in> set (newEvents r r') \<longrightarrow>
             e = None \<or> IsNotFound e \<or> IsGone e)"
    then have hd: "hd (newEvents r r') = ListedDaemonSets ns None items" using run(2) by simp
    have ok: "\<forall>ds e. DeletedDaemonSet ds e \<in> set (newEvents r r') \<longrightarrow> okDelete e"
      using h by (simp add: okDelete_def)
    from run_continues[OF run(1) hd ok]
    show "(\<forall>ds \<in> set items. isOldDaemon ds \<longrightarrow>
               (\<exists>e. DeletedDaemonSet ds e \<in> set (newEvents r r'))) \<and>
            (\<exists>gerr p. GotDaemonSet ns oldProvisionerName gerr p \<in> set (newEvents r r'))"
      by (simp add: oldDaemons_def)
  qed
  have 2: "\<forall>ds e. last (newEvents r r') = DeletedDaemonSet ds e \<and> (IsNotFound e \<or> IsGone e) \<longrightarrow>
            err \<noteq> None \<and>
            err = fst (NewRequirement appLabelKey In (oldAppNames items @ [oldProvisionerName]))"
    using run_last_delete(2)[OF run(1,2)] by (auto simp: okDelete_def)
  have 3: "\<forall>ds e. last (newEvents r r') = DeletedDaemonSet ds e \<and>
                  e \<noteq> None \<and> \<not> (IsNotFound e \<or> IsGone e) \<longrightarrow>
            err = e \<and> \<not> deletedStaticProvisioner r' \<and>
            (\<exists>lerr' items' rest.
               newEvents r' (snd (cleanupOldDaemonsets ns r')) = ListedDaemonSets ns lerr' items' # rest)"
  proof (intro allI impI)
    fix ds e
    assume h: "last (newEvents r r') = DeletedDaemonSet ds e \<and> e \<noteq> None \<and> \<not> (IsNotFound e \<or> IsGone e)"
    then have "\<not> okDelete e" by (simp add: okDelete_def)
    from run_last_delete(1)[OF run(1,2) _ this] h
    have r: "err = e" "\<not> deletedStaticProvisioner r'" by auto
    from cleanup_restarts[OF r(2)] r
    show "err = e \<and> \<not> deletedStaticProvisioner r' \<and>
            (\<exists>lerr' items' rest.
               newEvents r' (snd (cleanupOldDaemonsets ns r')) = ListedDaemonSets ns lerr' items' # rest)"
      by blast
  qed
  show ?thesis using 1 4 2 3 by blast
qed

theorem delete_errors_witness:
  "last (newEvents forbiddenReconciler (snd (cleanupOldDaemonsets ''storage'' forbiddenReconciler))) =
     DeletedDaemonSet legacyDiskmaker (Some (StatusError StatusReasonForbidden)) \<and>
   fst (cleanupOldDaemonsets ''storage'' forbiddenReconciler) = Some (StatusError StatusReasonForbidden) \<and>
   \<not> deletedStaticProvisioner (snd (cleanupOldDaemonsets ''storage'' forbiddenReconciler)) \<and>
   (\<exists>lerr items rest.
      newEvents (snd (cleanupOldDaemonsets ''storage'' forbiddenReconciler))
        (snd (cleanupOldDaemonsets ''storage''
           (snd (cleanupOldDaemonsets ''storage'' forbiddenReconciler)))) =
      ListedDaemonSets ''storage'' lerr items # rest) \<and>
   DeletedDaemonSet legacyDiskmaker (Some (StatusError StatusReasonNotFound)) \<in>
     set (butlast (newEvents vanishedReconciler
       (snd (cleanupOldDaemonsets ''storage'' vanishedReconciler)))) \<and>
   (\<exists>gerr p. GotDaemonSet ''storage'' oldProvisionerName gerr p \<in>
     set (newEvents vanishedReconciler (snd (cleanupOldDaemonsets ''storage'' vanishedReconciler)))) \<and>
   fst (cleanupOldDaemonsets ''storage'' vanishedReconciler) = None"
proof -
  have c: "cleanupOldDaemonsets ''storage'' forbiddenReconciler =
      (fst (cleanupOldDaemonsets ''storage'' forbiddenReconciler),
       snd (cleanupOldDaemonsets ''storage'' forbiddenReconciler))" by simp
  note t = delete_errors[OF forbidden_facts(1) c forbidden_facts(2)]
  have la: "last (newEvents forbiddenReconciler (snd (cleanupOldDaemonsets ''storage'' forbiddenReconciler))) =
     DeletedDaemonSet legacyDiskmaker (Some (StatusError StatusReasonForbidden))"
    by (simp add: forbidden_facts(3))
  have "Some (StatusError StatusReasonForbidden) \<noteq> None \<and>
        \<not> (IsNotFound (Some (StatusError StatusReasonForbidden)) \<or>
           IsGone (Some (StatusError StatusReasonForbidden)))" by simp
  with t la have f: "fst (cleanupOldDaemonsets ''storage'' forbiddenReconciler) =
        Some (StatusError StatusReasonForbidden) \<and>
      \<not> deletedStaticProvisioner (snd (cleanupOldDaemonsets ''storage'' forbiddenReconciler)) \<and>
      (\<exists>lerr items rest.
        newEvents (snd (cleanupOldDaemonsets ''storage'' forbiddenReconciler))
          (snd (cleanupOldDaemonsets ''storage''
             (snd (cleanupOldDaemonsets ''storage'' forbiddenReconciler)))) =
        ListedDaemonSets ''storage'' lerr items # rest)"
    by blast
  let ?vs = "newEvents vanishedReconciler (snd (cleanupOldDaemonsets ''storage'' vanishedReconciler))"
  have cv: "cleanupOldDaemonsets ''storage'' vanishedReconciler =
      (fst (cleanupOldDaemonsets ''storage'' vanishedReconciler),
       snd (cleanupOldDaemonsets ''storage'' vanishedReconciler))" by simp
  note tv = delete_errors[OF vanished_facts(1) cv vanished_facts(2)]
  have okv: "\<forall>ds e. DeletedDaemonSet ds e \<in> set ?vs \<longrightarrow> e = None \<or> IsNotFound e \<or> IsGone e"
    by (auto simp: vanished_facts(3))
  with tv have g: "\<exists>gerr p. GotDaemonSet ''storage'' oldProvisionerName gerr p \<in> set ?vs"
    by blast
  have b: "DeletedDaemonSet legacyDiskmaker (Some (StatusError StatusReasonNotFound)) \<in>
      set (butlast ?vs)"
    by (simp add: vanished_facts(3))
  show ?thesis using la f b g vanished_facts(4) by blast
qed

text \<open>
  C6. When \<open>cleanupOldDaemonsets\<close> returns an error (which it does only while the latch
  is unset), \<open>Reconcile\<close> returns the empty result with that error, and the reconciler
  is left exactly as the cleanup left it. The outcome is the same for any helpers: none
  of aggregation, configuration upsert and daemonset upsert is run.
\<close>

theorem cleanup_error_aborts_reconcile:
  "fst (cleanupOldDaemonsets (RequestNamespace request) r) \<noteq> None \<longrightarrow>
     \<not> deletedStaticProvisioner r \<and>
     Reconcile h request r =
       ((emptyResult, fst (cleanupOldDaemonsets (RequestNamespace request) r)),
        snd (cleanupOldDaemonsets (RequestNamespace request) r)) \<and>
     Reconcile h' request r = Reconcile h request r"
proof
  assume e: "fst (cleanupOldDaemonsets (RequestNamespace request) r) \<noteq> None"
  have l: "\<not> deletedStaticProvisioner r"
    using e cleanup_latched[of r "RequestNamespace request"] by auto
  obtain err r1 where c: "cleanupOldDaemonsets (RequestNamespace request) r = (err, r1)"
    by (metis surj_pair)
  have "\<And>k. Reconcile k request r =
       ((emptyResult, fst (cleanupOldDaemonsets (RequestNamespace request) r)),
        snd (cleanupOldDaemonsets (RequestNamespace request) r))"
    using e c by (simp add: Reconcile_def)
  then show "\<not> deletedStaticProvisioner r \<and>
     Reconcile h request r =
       ((emptyResult, fst (cleanupOldDaemonsets (RequestNamespace request) r)),
        snd (cleanupOldDaemonsets (RequestNamespace request) r)) \<and>
     Reconcile h' request r = Reconcile h request r"
    using l by simp
qed

theorem cleanup_error_aborts_reconcile_witness:
  "fst (cleanupOldDaemonsets (RequestNamespace exampleRequest) forbiddenReconciler) =
     Some (StatusError StatusReasonForbidden) \<and>
   \<not> deletedStaticProvisioner forbiddenReconciler \<and>
   Reconcile exampleHelpers exampleRequest forbiddenReconciler =
     ((emptyResult, Some (StatusError StatusReasonForbidden)),
      snd (cleanupOldDaemonsets (RequestNamespace exampleRequest) forbiddenReconciler)) \<and>
   Reconcile idleHelpers exampleRequest forbiddenReconciler =
     Reconcile exampleHelpers exampleRequest forbiddenReconciler"
proof -
  have "fst (cleanupOldDaemonsets (RequestNamespace exampleRequest) forbiddenReconciler) =
     Some (StatusError StatusReasonForbidden)"
    using forbidden_run by (simp add: exampleRequest_def split: prod.splits)
  then show ?thesis
    using cleanup_error_aborts_reconcile[of exampleRequest forbiddenReconciler exampleHelpers idleHelpers]
    by simp
qed

text \<open>
  C7. When the cleanup succeeds and aggregation returns no error, no fleet definition and
  no node selection, \<open>Reconcile\<close> returns the empty result and \<^verbatim>\<open>nil\<close>, and the reconciler is
  left as aggregation left it. The outcome does not depend on the configuration upsert,
  the hash, the mutation function or the daemonset upsert: none of them is run.
\<close>

theorem empty_desired_state_is_noop:
  assumes "cleanupOldDaemonsets (RequestNamespace request) r = (None, r1)"
    and "aggregateDeamonInfo h request r1 = ((info, None), r2)"
    and "lvSets info = []" and "lvs info = []"
  shows "Reconcile h request r = ((emptyResult, None), r2) \<and>
         (aggregateDeamonInfo h' = aggregateDeamonInfo h \<longrightarrow>
            Reconcile h' request r = Reconcile h request r)"
  using assms by (simp add: Reconcile_def)

theorem empty_desired_state_is_noop_witness:
  "Reconcile idleHelpers exampleRequest doneReconciler = ((emptyResult, None), doneReconciler) \<and>
   Reconcile (idleHelpers\<lparr>dataHash := (\<lambda>m. [])\<rparr>) exampleRequest doneReconciler =
     Reconcile idleHelpers exampleRequest doneReconciler"
proof -
  have c: "cleanupOldDaemonsets (RequestNamespace exampleRequest) doneReconciler = (None, doneReconciler)"
    by (simp add: cleanupOldDaemonsets_def doneReconciler_def)
  have a: "aggregateDeamonInfo idleHelpers exampleRequest doneReconciler =
      ((exampleInfo\<lparr>lvSets := [], lvs := []\<rparr>, None), doneReconciler)"
    by (simp add: idleHelpers_def)
  show ?thesis
    using empty_desired_state_is_noop[OF c a, of "idleHelpers\<lparr>dataHash := (\<lambda>m. [])\<rparr>"]
    by simp
qed

text \<open>
  C8. In a pass that gets as far as the daemonset upsert, the hash is taken from the data
  of the configuration that \<open>reconcileProvisionerConfigMap\<close> returned and is handed to the
  mutation function, which is handed to the daemonset upsert. With the mutation function
  and the upsert as the specification describes them, every daemonset the upsert creates
  or updates is the daemonset it returns and carries that hash under
  \<open>dataHashAnnotationKey\<close>; when the upsert reports created or updated without error, such
  a write is in the history.
\<close>

theorem fingerprint_annotation:
  assumes c: "cleanupOldDaemonsets (RequestNamespace request) r = (None, r1)"
    and a: "aggregateDeamonInfo h request r1 = ((info, None), r2)"
    and n: "\<not> (length (lvSets info) < 1 \<and> length (lvs info) < 1)"
    and m: "reconcileProvisionerConfigMap h request (lvSets info) (lvs info) (ownerRefs info) r2 =
              (((configMap, op), None), r3)"
    and g: "getDiskMakerDSMutateFn h = getDiskMakerDSMutateFn_spec"
    and u: "CreateOrUpdateDaemonset h = CreateOrUpdateDaemonset_spec namespace name"
  shows "\<exists>ds op' err r4.
           Reconcile h request r = ((emptyResult, err), r4) \<and>
           CreateOrUpdateDaemonset_spec namespace name
             (getDiskMakerDSMutateFn_spec request (tolerations info) (ownerRefs info)
                (nodeSelector info) (dataHash h (Data configMap))) r3 = (((ds, op'), err), r4) \<and>
           (\<forall>d e. CreatedDaemonSet d e \<in> set (newEvents r3 r4) \<or>
                  UpdatedDaemonSet d e \<in> set (newEvents r3 r4) \<longrightarrow>
                  d = ds \<and> Annotations d dataHashAnnotationKey = Some (dataHash h (Data configMap))) \<and>
           (err = None \<longrightarrow>
              Annotations ds dataHashAnnotationKey = Some (dataHash h (Data configMap))) \<and>
           (err = None \<and> op' \<noteq> OperationResultNone \<longrightarrow>
              CreatedDaemonSet ds None \<in> set (newEvents r3 r4) \<or>
              UpdatedDaemonSet ds None \<in> set (newEvents r3 r4))"
proof -
  let ?fn = "getDiskMakerDSMutateFn_spec request (tolerations info) (ownerRefs info)
                (nodeSelector info) (dataHash h (Data configMap))"
  obtain ds op' err r4 where
    up: "CreateOrUpdateDaemonset_spec namespace name ?fn r3 = (((ds, op'), err), r4)"
    by (metis surj_pair)
  have rec: "Reconcile h request r = ((emptyResult, err), r4)"
    using c a n m g u up by (auto simp: Reconcile_def Let_def)
  from upsert_shape[OF up] obtain gerr fetched writes where
    h: "history r4 = history r3 @ GotDaemonSet namespace name gerr fetched # writes"
    and d: "err = None \<longrightarrow> (\<exists>snapshot. ds = ?fn snapshot)"
    and w: "writes = [] \<or> (\<exists>snapshot werr. ds = ?fn snapshot \<and>
               (writes = [CreatedDaemonSet ds werr] \<or> writes = [UpdatedDaemonSet ds werr]) \<and>
               (err = None \<longrightarrow> werr = None))"
    and o: "err = None \<and> op' \<noteq> OperationResultNone \<longrightarrow> writes \<noteq> []"
    by blast
  have ne: "newEvents r3 r4 = GotDaemonSet namespace name gerr fetched # writes"
    using h by (rule newEvents_append)
  have 1: "\<forall>d e. CreatedDaemonSet d e \<in> set (newEvents r3 r4) \<or>
                  UpdatedDaemonSet d e \<in> set (newEvents r3 r4) \<longrightarrow>
                  d = ds \<and> Annotations d dataHashAnnotationKey = Some (dataHash h (Data configMap))"
    using w ne by (auto simp: mutate_sets_annotation)
  have 2: "err = None \<longrightarrow>
              Annotations ds dataHashAnnotationKey = Some (dataHash h (Data configMap))"
    using d by (auto simp: mutate_sets_annotation)
  have 3: "err = None \<and> op' \<noteq> OperationResultNone \<longrightarrow>
              CreatedDaemonSet ds None \<in> set (newEvents r3 r4) \<or>
              UpdatedDaemonSet ds None \<in> set (newEvents r3 r4)"
    using w o ne by auto
  show ?thesis using rec up 1 2 3 by blast
qed

theorem fingerprint_annotation_witness:
  "Reconcile exampleHelpers exampleRequest doneReconciler =
     ((emptyResult, None),
      snd (CreateOrUpdateDaemonset_spec ''storage'' DiskMakerName
             (getDiskMakerDSMutateFn_spec exampleRequest [] [OwnerReference ''fast-disks''] None
                ''fast-disks'') doneReconciler)) \<and>
   newEvents doneReconciler (snd (Reconcile exampleHelpers exampleRequest doneReconciler)) =
     [GotDaemonSet ''storage'' DiskMakerName (Some (StatusError StatusReasonNotFound)) emptyDaemonSet,
      CreatedDaemonSet
        (emptyDaemonSet\<lparr>Name := DiskMakerName, Namespace := ''storage'',
           OwnerReferences := [OwnerReference ''fast-disks''],
           Annotations := [dataHashAnnotationKey \<mapsto> ''fast-disks'']\<rparr>) None] \<and>
   toyHash (Data exampleConfigMap) = ''fast-disks''"
proof -
  have c: "cleanupOldDaemonsets (RequestNamespace exampleRequest) doneReconciler = (None, doneReconciler)"
    by (simp add: cleanupOldDaemonsets_def doneReconciler_def)
  have a: "aggregateDeamonInfo exampleHelpers exampleRequest doneReconciler =
      ((exampleInfo, None), doneReconciler)"
    by (simp add: exampleHelpers_def)
  have n: "\<not> (length (lvSets exampleInfo) < 1 \<and> length (lvs exampleInfo) < 1)"
    by (simp add: exampleInfo_def)
  have m: "reconcileProvisionerConfigMap exampleHelpers exampleRequest (lvSets exampleInfo)
             (lvs exampleInfo) (ownerRefs exampleInfo) doneReconciler =
           (((exampleConfigMap, OperationResultCreated), None), doneReconciler)"
    by (simp add: exampleHelpers_def)
  have g: "getDiskMakerDSMutateFn exampleHelpers = getDiskMakerDSMutateFn_spec"
    and u: "CreateOrUpdateDaemonset exampleHelpers = CreateOrUpdateDaemonset_spec ''storage'' DiskMakerName"
    by (simp_all add: exampleHelpers_def)
  have ev: "newEvents doneReconciler (snd (Reconcile exampleHelpers exampleRequest doneReconciler)) =
     [GotDaemonSet ''storage'' DiskMakerName (Some (StatusError StatusReasonNotFound)) emptyDaemonSet,
      CreatedDaemonSet
        (emptyDaemonSet\<lparr>Name := DiskMakerName, Namespace := ''storage'',
           OwnerReferences := [OwnerReference ''fast-disks''],
           Annotations := [dataHashAnnotationKey \<mapsto> ''fast-disks'']\<rparr>) None]"
    by (simp add: upsert_defs obj_defs eval_defs newEvents_def)
  have hs: "toyHash (Data exampleConfigMap) = ''fast-disks''"
    by (simp add: toyHash_def exampleConfigMap_def)
  from fingerprint_annotation[OF c a n m g u] obtain ds op' err r4 where
    r: "Reconcile exampleHelpers exampleRequest doneReconciler = ((emptyResult, err), r4)"
    and up: "CreateOrUpdateDaemonset_spec ''storage'' DiskMakerName
             (getDiskMakerDSMutateFn_spec exampleRequest (tolerations exampleInfo) (ownerRefs exampleInfo)
                (nodeSelector exampleInfo) (dataHash exampleHelpers (Data exampleConfigMap)))
             doneReconciler = (((ds, op'), err), r4)"
    and w: "\<forall>d e. CreatedDaemonSet d e \<in> set (newEvents doneReconciler r4) \<or>
                  UpdatedDaemonSet d e \<in> set (newEvents doneReconciler r4) \<longrightarrow>
                  d = ds \<and> Annotations d dataHashAnnotationKey =
                    Some (dataHash exampleHelpers (Data exampleConfigMap))"
    by blast
  have "err = None"
    using r by (simp add: upsert_defs obj_defs eval_defs split: if_splits)
  then show ?thesis
    using r up ev hs by (simp add: exampleInfo_def exampleHelpers_def)
qed

text \<open>
  C9. Every call of the condition function appends \<open>oldProvisionerName\<close> to the name list
  before it builds the selector, so the selector of any pod listing is built from the
  extended list and contains \<open>oldProvisionerName\<close>. After \<open>k\<close> calls the list is the
  initial one followed by \<open>k\<close> copies. In a cleanup pass the selector of pod listing
  \<open>i\<close> (counted from 0) is built from the label values of the prefix-matched items
  followed by \<open>i + 1\<close> copies of \<open>oldProvisionerName\<close>, which occurs in it exactly
  \<open>i + 1\<close> times, and it matches the same label sets as the selector of the first
  listing.
\<close>

theorem retirement_list_grows:
  fixes r :: "'w DaemonReconciler"
  assumes l: "\<not> deletedStaticProvisioner r" and c: "cleanupOldDaemonsets ns r = (err, r')"
    and a: "fst (List_DaemonSets (client r) ns (cluster r)) = (lerr, items)"
  shows "(\<forall>names (s :: 'w DaemonReconciler) allGone e names' s'.
            podsGone (names, s) = ((allGone, e), (names', s')) \<longrightarrow>
            names' = names @ [oldProvisionerName] \<and>
            (\<forall>sel e' ps. ListedPods sel e' ps \<in> set (newEvents s s') \<longrightarrow>
               sel = [requirementFor names'] \<and> oldProvisionerName \<in> set (strValues (hd sel)))) \<and>
         (\<forall>k names (s :: 'w DaemonReconciler).
            fst (iter podsGone k (names, s)) = names @ replicate k oldProvisionerName) \<and>
         (\<forall>i < length (podSelectors (newEvents r r')).
            podSelectors (newEvents r r') ! i =
              [requirementFor (oldAppNames items @ replicate (Suc i) oldProvisionerName)] \<and>
            count_list (oldAppNames items @ replicate (Suc i) oldProvisionerName) oldProvisionerName =
              Suc i \<and>
            (\<forall>ls. Matches (podSelectors (newEvents r r') ! i) ls =
                   Matches (podSelectors (newEvents r r') ! 0) ls))"
proof -
  note run = cleanup_events[OF l c a]
  have 1: "\<forall>names (s :: 'w DaemonReconciler) allGone e names' s'.
            podsGone (names, s) = ((allGone, e), (names', s')) \<longrightarrow>
            names' = names @ [oldProvisionerName] \<and>
            (\<forall>sel e' ps. ListedPods sel e' ps \<in> set (newEvents s s') \<longrightarrow>
               sel = [requirementFor names'] \<and> oldProvisionerName \<in> set (strValues (hd sel)))"
  proof (intro allI impI)
    fix names and s :: "'w DaemonReconciler" and allGone e names' s'
    assume p: "podsGone (names, s) = ((allGone, e), (names', s'))"
    have n: "names' = names @ [oldProvisionerName]" by (rule podsGone_cases(1)[OF p])
    have "\<forall>sel e' ps. ListedPods sel e' ps \<in> set (newEvents s s') \<longrightarrow>
               sel = [requirementFor names'] \<and> oldProvisionerName \<in> set (strValues (hd sel))"
      using podsGone_cases(4)[OF p] n
      by (auto simp: newEvents_def requirementFor_def)
    with n show "names' = names @ [oldProvisionerName] \<and>
            (\<forall>sel e' ps. ListedPods sel e' ps \<in> set (newEvents s s') \<longrightarrow>
               sel = [requirementFor names'] \<and> oldProvisionerName \<in> set (strValues (hd sel)))"
      by blast
  qed
  have 2: "\<forall>k names (s :: 'w DaemonReconciler).
      fst (iter podsGone k (names, s)) = names @ replicate k oldProvisionerName"
    by (simp add: iter_podsGone_names)
  let ?sels = "podSelectors (newEvents r r')"
  have sels: "?sels = map (\<lambda>i. [requirementFor (oldAppNames items @ replicate (Suc i) oldProvisionerName)])
             [0..<length ?sels]"
    using run_selectors[OF run(1,2)] by blast
  have 3: "\<forall>i < length ?sels.
            ?sels ! i = [requirementFor (oldAppNames items @ replicate (Suc i) oldProvisionerName)] \<and>
            count_list (oldAppNames items @ replicate (Suc i) oldProvisionerName) oldProvisionerName =
              Suc i \<and>
            (\<forall>ls. Matches (?sels ! i) ls = Matches (?sels ! 0) ls)"
  proof (intro allI impI)
    fix i assume i: "i < length ?sels"
    have e: "\<And>j. j < length ?sels \<Longrightarrow>
        ?sels ! j = [requirementFor (oldAppNames items @ replicate (Suc j) oldProvisionerName)]"
    proof -
      fix j assume j: "j < length ?sels"
      have "?sels ! j = map (\<lambda>i. [requirementFor (oldAppNames items @ replicate (Suc i) oldProvisionerName)])
             [0..<length ?sels] ! j" using sels by simp
      then show "?sels ! j = [requirementFor (oldAppNames items @ replicate (Suc j) oldProvisionerName)]"
        using j by simp
    qed
    have z: "0 < length ?sels" using i by (cases "?sels") auto
    have m: "\<forall>ls. Matches (?sels ! i) ls = Matches (?sels ! 0) ls"
      unfolding e[OF i] e[OF z] using same_matches[of "oldAppNames items" i oldProvisionerName]
      by simp
    show "?sels ! i = [requirementFor (oldAppNames items @ replicate (Suc i) oldProvisionerName)] \<and>
            count_list (oldAppNames items @ replicate (Suc i) oldProvisionerName) oldProvisionerName =
              Suc i \<and>
            (\<forall>ls. Matches (?sels ! i) ls = Matches (?sels ! 0) ls)"
      using e[OF i] count_old_name[of items "Suc i"] m by blast
  qed
  show ?thesis using 1 2 3 by blast
qed

theorem retirement_list_grows_witness:
  "podSelectors (newEvents startReconciler (snd (cleanupOldDaemonsets ''storage'' startReconciler))) ! 1 =
     [requirementFor [''local-volume-diskmaker-fast'', oldProvisionerName, oldProvisionerName]] \<and>
   count_list [''local-volume-diskmaker-fast'', oldProvisionerName, oldProvisionerName]
     oldProvisionerName = 2 \<and>
   Matches (podSelectors
       (newEvents startReconciler (snd (cleanupOldDaemonsets ''storage'' startReconciler))) ! 1)
     (PodLabels diskmakerPod) =
   Matches (podSelectors
       (newEvents startReconciler (snd (cleanupOldDaemonsets ''storage'' startReconciler))) ! 0)
     (PodLabels diskmakerPod) \<and>
   fst (iter podsGone 2 ([''local-volume-diskmaker-fast''], startReconciler)) =
     [''local-volume-diskmaker-fast'', oldProvisionerName, oldProvisionerName]"
proof -
  let ?sels = "podSelectors (newEvents startReconciler (snd (cleanupOldDaemonsets ''storage'' startReconciler)))"
  have c: "cleanupOldDaemonsets ''storage'' startReconciler =
      (fst (cleanupOldDaemonsets ''storage'' startReconciler),
       snd (cleanupOldDaemonsets ''storage'' startReconciler))" by simp
  note t = retirement_list_grows[OF start_unlatched c start_listing]
  have len: "1 < length ?sels" by (simp add: start_events podSelectors_simps)
  from t len have a: "?sels ! 1 = [requirementFor
        (oldAppNames [unrelated, legacyDiskmaker, legacyProvisioner] @ replicate (Suc 1) oldProvisionerName)] \<and>
      count_list (oldAppNames [unrelated, legacyDiskmaker, legacyProvisioner] @
        replicate (Suc 1) oldProvisionerName) oldProvisionerName = Suc 1 \<and>
      (\<forall>ls. Matches (?sels ! 1) ls = Matches (?sels ! 0) ls)"
    by blast
  from t have b: "fst (iter podsGone 2 ([''local-volume-diskmaker-fast''], startReconciler)) =
      [''local-volume-diskmaker-fast''] @ replicate 2 oldProvisionerName"
    by blast
  have two: "replicate 2 oldProvisionerName = [oldProvisionerName, oldProvisionerName]"
    "replicate (Suc 1) oldProvisionerName = [oldProvisionerName, oldProvisionerName]"
    by (simp_all add: numeral_2_eq_2)
  have ne: "''local-volume-diskmaker-fast'' \<noteq> oldProvisionerName"
    by (simp add: oldProvisionerName_def)
  have 1: "?sels ! 1 =
      [requirementFor [''local-volume-diskmaker-fast'', oldProvisionerName, oldProvisionerName]]"
    using a by (simp add: legacy_objects two)
  have 2: "count_list [''local-volume-diskmaker-fast'', oldProvisionerName, oldProvisionerName]
      oldProvisionerName = 2"
    using ne by simp
  have 3: "Matches (?sels ! 1) (PodLabels diskmakerPod) = Matches (?sels ! 0) (PodLabels diskmakerPod)"
    using a by blast
  have 4: "fst (iter podsGone 2 ([''local-volume-diskmaker-fast''], startReconciler)) =
      [''local-volume-diskmaker-fast'', oldProvisionerName, oldProvisionerName]"
    using b by (simp add: two)
  show ?thesis using 1 2 3 4 by blast
qed

text \<open>
  C10. Every delete of a cleanup pass is for an item of the namespace listing that has an
  \<^verbatim>\<open>app\<close> label whose value starts with one of the two old prefixes, or for the daemonset
  fetched under \<open>oldProvisionerName\<close>. There is at most one delete more than there are
  prefix-matched items, and the pass creates or updates nothing. On the in-memory store with
  one object per namespace and name, the daemonsets that are not retired are the same
  objects, in the same order, after the pass as before it, however the pass ends. In the
  concrete cluster the daemonset without an \<^verbatim>\<open>app\<close> label is the one that is left in the store.
\<close>

theorem cleanup_deletes_only_legacy:
  fixes r :: "'w DaemonReconciler"
  assumes l: "\<not> deletedStaticProvisioner r" and c: "cleanupOldDaemonsets ns r = (err, r')"
    and a: "fst (List_DaemonSets (client r) ns (cluster r)) = (lerr, items)"
  shows "(\<forall>ds e. DeletedDaemonSet ds e \<in> set (newEvents r r') \<longrightarrow>
            (ds \<in> set items \<and> (\<exists>appLabel. Labels ds appLabelKey = Some appLabel \<and>
               (HasPrefix appLabel oldLVDiskMakerPrefix \<or> HasPrefix appLabel oldLVProvisionerPrefix))) \<or>
            GotDaemonSet ns oldProvisionerName None ds \<in> set (newEvents r r')) \<and>
         (\<forall>ds e. Labels ds appLabelKey = None \<and> DeletedDaemonSet ds e \<in> set (newEvents r r') \<longrightarrow>
            GotDaemonSet ns oldProvisionerName None ds \<in> set (newEvents r r')) \<and>
         length (filter isDeletion (newEvents r r')) \<le> length (oldDaemons items) + 1 \<and>
         list_all (\<lambda>ev. \<not> isWrite ev) (newEvents r r') \<and>
         (\<forall>s. client s = storeClient \<and> distinct (map objectKey (daemonSets (cluster s))) \<longrightarrow>
            filter (\<lambda>d. \<not> retired ns d) (daemonSets (cluster (snd (cleanupOldDaemonsets ns s)))) =
            filter (\<lambda>d. \<not> retired ns d) (daemonSets (cluster s)))"
proof -
  note run = cleanup_events[OF l c a]
  have "\<And>ds. isOldDaemon ds \<Longrightarrow> \<exists>appLabel. Labels ds appLabelKey = Some appLabel \<and>
      (HasPrefix appLabel oldLVDiskMakerPrefix \<or> HasPrefix appLabel oldLVProvisionerPrefix)"
    by (auto simp: isOldDaemon_def hasOldPrefix_def split: option.splits)
  then have 1: "\<forall>ds e. DeletedDaemonSet ds e \<in> set (newEvents r r') \<longrightarrow>
            (ds \<in> set items \<and> (\<exists>appLabel. Labels ds appLabelKey = Some appLabel \<and>
               (HasPrefix appLabel oldLVDiskMakerPrefix \<or> HasPrefix appLabel oldLVProvisionerPrefix))) \<or>
            GotDaemonSet ns oldProvisionerName None ds \<in> set (newEvents r r')"
    using run_deleted_only_old[OF run(1,2)] by blast
  have 2: "\<forall>ds e. Labels ds appLabelKey = None \<and> DeletedDaemonSet ds e \<in> set (newEvents r r') \<longrightarrow>
            GotDaemonSet ns oldProvisionerName None ds \<in> set (newEvents r r')"
    using 1 by fastforce
  have 3: "\<forall>s. client s = storeClient \<and> distinct (map objectKey (daemonSets (cluster s))) \<longrightarrow>
            filter (\<lambda>d. \<not> retired ns d) (daemonSets (cluster (snd (cleanupOldDaemonsets ns s)))) =
            filter (\<lambda>d. \<not> retired ns d) (daemonSets (cluster s))"
    using cleanup_store_frame[of _ ns] by (simp add: unretired_def)
  from 1 2 run_deletion_count[OF run(1,2)] run_no_writes[OF run(1)] 3
  show ?thesis by (intro conjI)
qed

theorem cleanup_deletes_only_legacy_witness:
  "DeletedDaemonSet legacyDiskmaker None \<in>
     set (newEvents startReconciler (snd (cleanupOldDaemonsets ''storage'' startReconciler))) \<and>
   DeletedDaemonSet legacyProvisioner None \<in>
     set (newEvents startReconciler (snd (cleanupOldDaemonsets ''storage'' startReconciler))) \<and>
   \<not> (\<exists>e. DeletedDaemonSet unrelated e \<in>
     set (newEvents startReconciler (snd (cleanupOldDaemonsets ''storage'' startReconciler)))) \<and>
   length (filter isDeletion
     (newEvents startReconciler (snd (cleanupOldDaemonsets ''storage'' startReconciler)))) \<le> 2 \<and>
   filter (\<lambda>d. \<not> retired ''storage'' d)
     (daemonSets (cluster (snd (cleanupOldDaemonsets ''storage'' startReconciler)))) = [unrelated] \<and>
   daemonSets (cluster (snd (cleanupOldDaemonsets ''storage'' startReconciler))) = [unrelated]"
proof -
  let ?evs = "newEvents startReconciler (snd (cleanupOldDaemonsets ''storage'' startReconciler))"
  have c: "cleanupOldDaemonsets ''storage'' startReconciler =
      (fst (cleanupOldDaemonsets ''storage'' startReconciler),
       snd (cleanupOldDaemonsets ''storage'' startReconciler))" by simp
  note t = cleanup_deletes_only_legacy[OF start_unlatched c start_listing]
  have g: "GotDaemonSet ''storage'' oldProvisionerName None unrelated \<notin> set ?evs"
    using legacy_objects(6) by (simp add: start_events)
  have "\<not> (\<exists>e. DeletedDaemonSet unrelated e \<in> set ?evs)"
  proof
    assume "\<exists>e. DeletedDaemonSet unrelated e \<in> set ?evs"
    then obtain e where "DeletedDaemonSet unrelated e \<in> set ?evs" ..
    with t have "(\<exists>appLabel. Labels unrelated appLabelKey = Some appLabel) \<or>
        GotDaemonSet ''storage'' oldProvisionerName None unrelated \<in> set ?evs" by blast
    then show False using g legacy_objects(4) by simp
  qed
  moreover have "length (filter isDeletion ?evs) \<le> 2"
    using t by (simp add: oldDaemons_def legacy_objects)
  moreover have "filter (\<lambda>d. \<not> retired ''storage'' d)
     (daemonSets (cluster (snd (cleanupOldDaemonsets ''storage'' startReconciler)))) = [unrelated]"
  proof -
    have k: "client startReconciler = storeClient \<and>
        distinct (map objectKey (daemonSets (cluster startReconciler)))"
      by (simp add: objectKey_def obj_defs oldProvisionerName_def)
    have "filter (\<lambda>d. \<not> retired ''storage'' d) (daemonSets (cluster startReconciler)) = [unrelated]"
      using legacy_objects
      by (simp add: retired_def obj_defs oldProvisionerName_def)
    with t k show ?thesis by metis
  qed
  ultimately show ?thesis
    using start_store by (simp add: start_events)
qed

end
